theory Spec2Isabelle
  imports Complex_Main "HOL-Library.Log_Nat"
begin

section \<open>Numbers and errors\<close>

text \<open>
  The program is \<^verbatim>\<open>qr_logo_overlay.py\<close>. Python integers are \<^typ>\<open>int\<close>. The built-in
  \<^verbatim>\<open>round\<close> of Python 3 rounds to the nearest integer and a tie to the even neighbour.
\<close>

definition py_round :: "real \<Rightarrow> int" where
  "py_round x =
     (let f = \<lfloor>x\<rfloor>; d = x - of_int f
      in if d < 1 / 2 then f
         else if 1 / 2 < d then f + 1
         else if even f then f else f + 1)"

text \<open>
  A Python float is a binary64 number. \<open>float64 x\<close> is the binary64 number nearest to the
  real \<open>x\<close>, a tie going to the even significand: for \<open>x\<close> with exponent \<open>e\<close>, that is
  \<open>pow2 e \<le> \<bar>x\<bar> < pow2 (e + 1)\<close>, it is the multiple of \<open>pow2 (e - 52)\<close> nearest to \<open>x\<close>.
  Overflow and subnormal numbers are left out. An arithmetic operation on floats is the
  exact operation followed by \<open>float64\<close>; an integer operand is converted exactly (the
  integers of the program are far below \<open>pow2 53\<close>). The functions whose float results
  the statements below depend on (\<^verbatim>\<open>otsu_threshold\<close>, \<^verbatim>\<open>geo_from_exact_dims\<close>) round in
  this way; in the other functions the floats are read as exact reals, and the
  statements about them do not depend on the rounding.
\<close>

definition pow2 :: "int \<Rightarrow> real" where
  "pow2 k = (if 0 \<le> k then 2 ^ nat k else 1 / 2 ^ nat (- k))"

definition float_exponent :: "real \<Rightarrow> int" where
  "float_exponent x =
     (if 1 \<le> \<bar>x\<bar> then bitlen \<lfloor>\<bar>x\<bar>\<rfloor> - 1 else - bitlen (\<lceil>1 / \<bar>x\<bar>\<rceil> - 1))"

definition float64 :: "real \<Rightarrow> real" where
  "float64 x =
     (if x = 0 then 0
      else of_int (py_round (x * pow2 (52 - float_exponent x))) * pow2 (float_exponent x - 52))"

text \<open>The true division \<^verbatim>\<open>a / b\<close> of two Python integers, for \<open>b\<close> other than 0.\<close>

definition py_truediv :: "int \<Rightarrow> int \<Rightarrow> real" where
  "py_truediv a b = float64 (of_int a / of_int b)"

text \<open>
  Every \<^verbatim>\<open>raise ValueError(...)\<close> of the source is one constructor, named after the
  condition its message reports (\<open>InvalidRectangle\<close> is the \<^verbatim>\<open>ValueError\<close> of
  \<^verbatim>\<open>ImageDraw.rectangle\<close>); the two exceptions that Python itself raises (a division
  by zero, a pixel read outside an image) are the last two.
\<close>

datatype error =
    InvalidInput            \<comment> \<open>"QR image must be square when using --modules/--quiet override."\<close>
  | NoModulesDetected       \<comment> \<open>"No modules detected in QR image (all flat)."\<close>
  | NoDarkModulesDetected   \<comment> \<open>"No dark modules detected in QR image."\<close>
  | ModuleSizeUnavailable   \<comment> \<open>"Unable to estimate module size from middle row."\<close>
  | InvalidModuleCount      \<comment> \<open>"Detected non-positive module count."\<close>
  | InvalidRectangle        \<comment> \<open>"x1 must be greater than or equal to x0" (or y1, y0)\<close>
  | ZeroDivisionError
  | IndexError

type_synonym rgb = "int \<times> int \<times> int"
type_synonym rgba = "int \<times> int \<times> int \<times> int"

text \<open>An RGBA bitmap: its size and its pixels, read at \<open>(x, y)\<close>.\<close>

record image =
  width :: int
  height :: int
  pixels :: "int \<Rightarrow> int \<Rightarrow> rgba"

text \<open>\<^verbatim>\<open>Image.getpixel\<close>: a read outside the bitmap raises.\<close>

definition getpixel :: "image \<Rightarrow> int \<times> int \<Rightarrow> error + rgba" where
  "getpixel img xy =
     (case xy of (x, y) \<Rightarrow>
        if 0 \<le> x \<and> x < width img \<and> 0 \<le> y \<and> y < height img
        then Inr (pixels img x y) else Inl IndexError)"

section \<open>Utilities\<close>

definition clamp :: "int \<Rightarrow> int \<Rightarrow> int \<Rightarrow> int" where
  "clamp v lo hi = (if v < lo then lo else if v > hi then hi else v)"

definition luminance_rgb :: "rgb \<Rightarrow> real" where
  "luminance_rgb c =
     (case c of (r, g, b) \<Rightarrow>
        (2126 / 10000) * of_int r + (7152 / 10000) * of_int g + (722 / 10000) * of_int b)"

definition cell_bounds ::
  "int \<Rightarrow> int \<Rightarrow> int \<Rightarrow> int \<Rightarrow> int \<Rightarrow> int \<Rightarrow> error + (int \<times> int \<times> int \<times> int)" where
  "cell_bounds Lw Lh total_modules qz row col =
     (if total_modules = 0 then Inl ZeroDivisionError
      else
        let f = 1 / of_int total_modules;
            Ctot = col + qz;
            Rtot = row + qz;
            x0 = py_round (of_int Ctot * f * of_int Lw);
            y0 = py_round (of_int Rtot * f * of_int Lh);
            x1 = py_round (of_int (Ctot + 1) * f * of_int Lw) - 1;
            y1 = py_round (of_int (Rtot + 1) * f * of_int Lh) - 1
        in Inr (x0, y0, x1, y1))"

section \<open>Threshold selection\<close>

text \<open>
  The grayscale array is a list of rows of byte values. \<^verbatim>\<open>np.histogram(gray, bins=256,
  range=(0, 256))\<close> counts, in bin \<open>t\<close>, the pixels of value \<open>t\<close>.
\<close>

definition histogram :: "nat list \<Rightarrow> nat \<Rightarrow> int" where
  "histogram px t = int (count_list px t)"

text \<open>
  The three statements of the loop body that compute \<^verbatim>\<open>m_b\<close>, \<^verbatim>\<open>m_f\<close> and
  \<^verbatim>\<open>var_between\<close>; \<^verbatim>\<open>w_b * w_f\<close> is a product of integers.
\<close>

definition var_between :: "int \<Rightarrow> int \<Rightarrow> int \<Rightarrow> int \<Rightarrow> real" where
  "var_between w_b w_f sum_b sum_total =
     (let m_b = py_truediv sum_b w_b;
          m_f = py_truediv (sum_total - sum_b) w_f
      in float64 (of_int (w_b * w_f) * float64 (float64 (m_b - m_f) ^ 2)))"

text \<open>
  The loop \<^verbatim>\<open>for t in range(256)\<close> of \<^verbatim>\<open>otsu_threshold\<close>, from \<open>t\<close> on, with the
  values of \<^verbatim>\<open>sum_b\<close>, \<^verbatim>\<open>w_b\<close>, \<^verbatim>\<open>max_var\<close> and \<^verbatim>\<open>thresh\<close> at the start of the
  iteration; \<^verbatim>\<open>continue\<close> goes on with \<open>t + 1\<close>, \<^verbatim>\<open>break\<close> returns.
\<close>

function otsu_loop ::
  "(nat \<Rightarrow> int) \<Rightarrow> int \<Rightarrow> int \<Rightarrow> nat \<Rightarrow> int \<Rightarrow> int \<Rightarrow> real \<Rightarrow> int \<Rightarrow> int" where
  "otsu_loop hist tot sum_total t sum_b w_b max_var thresh =
     (if 256 \<le> t then thresh
      else if w_b + hist t = 0
      then otsu_loop hist tot sum_total (t + 1) sum_b (w_b + hist t) max_var thresh
      else if tot - (w_b + hist t) = 0 then thresh
      else if var_between (w_b + hist t) (tot - (w_b + hist t)) (sum_b + int t * hist t) sum_total
              > max_var
      then otsu_loop hist tot sum_total (t + 1) (sum_b + int t * hist t) (w_b + hist t)
             (var_between (w_b + hist t) (tot - (w_b + hist t)) (sum_b + int t * hist t) sum_total)
             (int t)
      else otsu_loop hist tot sum_total (t + 1) (sum_b + int t * hist t) (w_b + hist t)
             max_var thresh)"
  by pat_completeness auto
termination
  by (relation "measure (\<lambda>(hist, tot, sum_total, t, sum_b, w_b, max_var, thresh). 256 - t)") auto

declare otsu_loop.simps [simp del]

definition otsu_threshold :: "nat list list \<Rightarrow> int" where
  "otsu_threshold gray =
     (let hist = histogram (concat gray);
          tot = int (length (concat gray));
          sum_total = (\<Sum>t\<leftarrow>[0..<256]. int t * hist t)
      in otsu_loop hist tot sum_total 0 0 0 (- 1) 128)"

section \<open>Geometry\<close>

record QRGeometry =
  n_modules :: int
  qz_modules :: int
  content_box :: "int \<times> int \<times> int \<times> int"  \<comment> \<open>(left, top, right, bottom)\<close>
  module_px :: real
  thresh :: int
  dark_is_lt :: bool

definition geo_from_exact_dims :: "image \<Rightarrow> int \<Rightarrow> int \<Rightarrow> error + QRGeometry" where
  "geo_from_exact_dims qr_img n qz =
     (let W = width qr_img; H = height qr_img
      in if W \<noteq> H then Inl InvalidInput
         else
           let tot = n + 2 * qz
           in if tot = 0 then Inl ZeroDivisionError
              else
                let mpx = py_truediv W tot;
                    left_x = py_round (float64 (of_int qz * mpx));
                    top_y = py_round (float64 (of_int qz * mpx));
                    right_x = py_round (float64 (of_int (qz + n) * mpx)) - 1;
                    bottom_y = py_round (float64 (of_int (qz + n) * mpx)) - 1
                in Inr \<lparr> n_modules = n,
                         qz_modules = qz,
                         content_box = (left_x, top_y, right_x, bottom_y),
                         module_px = mpx,
                         thresh = 128,
                         dark_is_lt = True \<rparr>)"

text \<open>
  Inference. The argument \<open>gray\<close> is the array \<^verbatim>\<open>to_gray(qr_img)\<close>: the conversion is
  the image library's, so the array is given with the image. A boolean mask is a list
  of rows; \<^verbatim>\<open>np.where\<close> lists the set entries as \<open>(y, x)\<close> in row-major order.
\<close>

definition mask_lt :: "nat list list \<Rightarrow> int \<Rightarrow> bool list list" where
  "mask_lt gray t = map (map (\<lambda>v. int v < t)) gray"

definition mask_gt :: "nat list list \<Rightarrow> int \<Rightarrow> bool list list" where
  "mask_gt gray t = map (map (\<lambda>v. int v > t)) gray"

definition mask_sum :: "bool list list \<Rightarrow> int" where
  "mask_sum m = int (length (filter (\<lambda>b. b) (concat m)))"

definition np_where :: "bool list list \<Rightarrow> (nat \<times> nat) list" where
  "np_where m =
     concat (map (\<lambda>y. map (\<lambda>x. (y, x)) (filter (\<lambda>x. m ! y ! x) [0..<length (m ! y)]))
               [0..<length m])"

text \<open>
  The choice of the polarity and of the mask \<^verbatim>\<open>bin_black\<close>, with the widened retry
  (the part of \<^verbatim>\<open>detect_qr_geometry\<close> up to the second \<^verbatim>\<open>raise\<close>).
\<close>

definition choose_mask :: "nat list list \<Rightarrow> int \<Rightarrow> error + (bool \<times> bool list list)" where
  "choose_mask gray t =
     (let bin_lt = mask_lt gray t;
          bin_gt = mask_gt gray t;
          c_lt = mask_sum bin_lt;
          c_gt = mask_sum bin_gt
      in if c_lt = 0 \<and> c_gt = 0 then Inl NoModulesDetected
         else
           let use_lt = (c_lt \<ge> c_gt \<and> c_lt > 0);
               bin_black = (if use_lt then bin_lt else bin_gt)
           in if length (np_where bin_black) = 0
              then
                let tweak = 10;
                    bin_black' = (if use_lt then mask_lt gray (min 255 (t + tweak))
                                  else mask_gt gray (max 0 (t - tweak)))
                in if length (np_where bin_black') = 0 then Inl NoDarkModulesDetected
                   else Inr (use_lt, bin_black')
              else Inr (use_lt, bin_black))"

text \<open>
  The run-length loop over \<^verbatim>\<open>row[1:]\<close>, with \<^verbatim>\<open>cur\<close>, \<^verbatim>\<open>cnt\<close> and \<^verbatim>\<open>runs\<close>; the
  last equation is the statement after the loop.
\<close>

fun run_lengths :: "bool list \<Rightarrow> bool \<Rightarrow> int \<Rightarrow> int list \<Rightarrow> int list" where
  "run_lengths [] cur cnt runs = (if cur then runs @ [cnt] else runs)"
| "run_lengths (v # vs) cur cnt runs =
     (if v = cur then run_lengths vs cur (cnt + 1) runs
      else run_lengths vs v 1 (if cur then runs @ [cnt] else runs))"

text \<open>\<^verbatim>\<open>np.median\<close> of a non-empty list of integers.\<close>

definition median :: "int list \<Rightarrow> real" where
  "median xs =
     (let s = sort xs; k = length s
      in if odd k then of_int (s ! (k div 2))
         else (of_int (s ! (k div 2 - 1)) + of_int (s ! (k div 2))) / 2)"

text \<open>
  The bounding box of the set entries, \<open>(left, top, right, bottom)\<close>, from
  \<^verbatim>\<open>ys, xs = np.where(bin_black)\<close>.
\<close>

definition bounding_box :: "bool list list \<Rightarrow> int \<times> int \<times> int \<times> int" where
  "bounding_box bin_black =
     (let ys = map fst (np_where bin_black);
          xs = map snd (np_where bin_black)
      in (int (Min (set xs)), int (Min (set ys)), int (Max (set xs)), int (Max (set ys))))"

text \<open>
  The module size from the run lengths of the middle row (the block of
  \<^verbatim>\<open>detect_qr_geometry\<close> from \<^verbatim>\<open>mid_y\<close> to \<^verbatim>\<open>module_px\<close>).
\<close>

definition estimate_module_px :: "bool list list \<Rightarrow> int \<times> int \<times> int \<times> int \<Rightarrow> error + real" where
  "estimate_module_px bin_black box =
     (case box of (left_x, top_y, right_x, bottom_y) \<Rightarrow>
        let mid_y = (top_y + bottom_y) div 2;
            row = take (nat (right_x + 1 - left_x)) (drop (nat left_x) (bin_black ! nat mid_y))
        in case row of
             [] \<Rightarrow> Inl IndexError
           | cur # rest \<Rightarrow>
               let runs = run_lengths rest cur 1 []
               in if runs = [] then Inl ModuleSizeUnavailable
                  else
                    let runs_sorted = sort runs;
                        lower = take (max 1 (length runs_sorted div 2)) runs_sorted
                    in Inr (median lower))"

definition detect_qr_geometry :: "image \<Rightarrow> nat list list \<Rightarrow> int option \<Rightarrow> error + QRGeometry" where
  "detect_qr_geometry qr_img gray qr_threshold =
     (let W = width qr_img; H = height qr_img;
          t = (case qr_threshold of Some q \<Rightarrow> q | None \<Rightarrow> otsu_threshold gray)
      in case choose_mask gray t of
           Inl e \<Rightarrow> Inl e
         | Inr (use_lt, bin_black) \<Rightarrow>
             (case bounding_box bin_black of (left_x, top_y, right_x, bottom_y) \<Rightarrow>
                let content_w = right_x - left_x + 1;
                    content_h = bottom_y - top_y + 1
                in case estimate_module_px bin_black (left_x, top_y, right_x, bottom_y) of
                     Inl e \<Rightarrow> Inl e
                   | Inr mpx \<Rightarrow>
                       let n_w = py_round (of_int content_w / mpx);
                           n_h = py_round (of_int content_h / mpx);
                           n = (if n_w \<noteq> n_h then py_round (of_int (n_w + n_h) / 2) else n_w)
                       in if n \<le> 0 then Inl InvalidModuleCount
                          else
                            let qz_px = min (min left_x top_y)
                                            (min (W - 1 - right_x) (H - 1 - bottom_y));
                                qz = max 0 (py_round (of_int qz_px / mpx))
                            in Inr \<lparr> n_modules = n,
                                     qz_modules = qz,
                                     content_box = (left_x, top_y, right_x, bottom_y),
                                     module_px = mpx,
                                     thresh = t,
                                     dark_is_lt = use_lt \<rparr>))"

text \<open>The module sampler; its third parameter is unused in the source as well.\<close>

definition sample_qr_module_dark ::
  "image \<Rightarrow> QRGeometry \<Rightarrow> int option \<Rightarrow> int \<Rightarrow> int \<Rightarrow> error + bool" where
  "sample_qr_module_dark qr_img geo qr_threshold_unused row col =
     (case content_box geo of (left_x, top_y, right_x, bottom_y) \<Rightarrow>
        let n = n_modules geo
        in if n = 0 then Inl ZeroDivisionError
           else
             let module_w = of_int (right_x - left_x + 1) / of_int n;
                 module_h = of_int (bottom_y - top_y + 1) / of_int n;
                 cx = py_round (of_int left_x + (of_int col + 1 / 2) * module_w);
                 cy = py_round (of_int top_y + (of_int row + 1 / 2) * module_h);
                 cx' = clamp cx 0 (width qr_img - 1);
                 cy' = clamp cy 0 (height qr_img - 1)
             in case getpixel qr_img (cx', cy') of
                  Inl e \<Rightarrow> Inl e
                | Inr (r, g, b, a) \<Rightarrow>
                    let gray = py_round ((299 / 1000) * of_int r + (587 / 1000) * of_int g
                                         + (114 / 1000) * of_int b)
                    in Inr (if dark_is_lt geo then gray < thresh geo else gray > thresh geo))"

section \<open>Finder patterns\<close>

definition in_finder :: "int \<Rightarrow> int \<Rightarrow> int \<Rightarrow> bool" where
  "in_finder n r c =
     (if (0 \<le> r \<and> r \<le> 6) \<and> (0 \<le> c \<and> c \<le> 6) then True
      else if (0 \<le> r \<and> r \<le> 6) \<and> (n - 7 \<le> c \<and> c \<le> n - 1) then True
      else if (n - 7 \<le> r \<and> r \<le> n - 1) \<and> (0 \<le> c \<and> c \<le> 6) then True
      else False)"

section \<open>Logo colour picker\<close>

text \<open>
  \<^verbatim>\<open>center_xy\<close> is local to \<^verbatim>\<open>pick_logo_color\<close>; here it takes the logo size and
  the grid size that it reads there. \<open>center_px\<close> is one coordinate of its result.
\<close>

definition center_px :: "int \<Rightarrow> int \<Rightarrow> int \<Rightarrow> int" where
  "center_px extent total_modules c =
     clamp (py_round ((of_int c + 1 / 2) * (1 / of_int total_modules) * of_int extent))
       0 (extent - 1)"

definition center_xy :: "int \<Rightarrow> int \<Rightarrow> int \<Rightarrow> int \<Rightarrow> int \<Rightarrow> error + (int \<times> int)" where
  "center_xy logo_w logo_h total_modules r c =
     (if total_modules = 0 then Inl ZeroDivisionError
      else Inr (center_px logo_w total_modules c, center_px logo_h total_modules r))"

definition is_dark_rgba :: "int \<Rightarrow> rgba \<Rightarrow> bool" where
  "is_dark_rgba thr px =
     (case px of (r, g, b, a) \<Rightarrow>
        if a < 10 then False else luminance_rgb (r, g, b) < of_int thr)"

text \<open>The list \<^verbatim>\<open>offsets\<close> as the two loops fill it, and after the stable sort.\<close>

definition offsets_unsorted :: "int \<Rightarrow> (int \<times> int \<times> int) list" where
  "offsets_unsorted radius =
     concat (map (\<lambda>dr. concat (map (\<lambda>dc. if dr = 0 \<and> dc = 0 then []
                                         else [(dr, dc, dr * dr + dc * dc)])
                                 [- radius..radius]))
               [- radius..radius])"

definition offsets_sorted :: "int \<Rightarrow> (int \<times> int \<times> int) list" where
  "offsets_sorted radius = sort_key (\<lambda>t. snd (snd t)) (offsets_unsorted radius)"

text \<open>The test of a neighbour's pixel in the search loop.\<close>

definition neighbor_ok :: "bool \<Rightarrow> int \<Rightarrow> rgba \<Rightarrow> bool" where
  "neighbor_ok want_dark thr npix =
     (case npix of (r, g, b, a) \<Rightarrow>
        ((luminance_rgb (r, g, b) < of_int thr) = want_dark) \<and> a \<ge> 10)"

fun search_neighbors ::
  "image \<Rightarrow> int \<Rightarrow> int \<Rightarrow> int \<Rightarrow> int \<Rightarrow> int \<Rightarrow> bool \<Rightarrow> int \<Rightarrow> (int \<times> int \<times> int) list
     \<Rightarrow> error + rgba option" where
  "search_neighbors logo_img logo_w logo_h total_modules R C want_dark thr [] = Inr None"
| "search_neighbors logo_img logo_w logo_h total_modules R C want_dark thr ((dr, dc, d2) # rest) =
     (let nr = R + dr; nc = C + dc
      in if \<not> (0 \<le> nr \<and> nr < total_modules \<and> 0 \<le> nc \<and> nc < total_modules)
         then search_neighbors logo_img logo_w logo_h total_modules R C want_dark thr rest
         else
           case center_xy logo_w logo_h total_modules nr nc of
             Inl e \<Rightarrow> Inl e
           | Inr nxy \<Rightarrow>
               (case getpixel logo_img nxy of
                  Inl e \<Rightarrow> Inl e
                | Inr npix \<Rightarrow>
                    if neighbor_ok want_dark thr npix then Inr (Some npix)
                    else search_neighbors logo_img logo_w logo_h total_modules R C want_dark thr
                           rest))"

definition pick_logo_color ::
  "image \<Rightarrow> int \<Rightarrow> int \<Rightarrow> int \<Rightarrow> int \<Rightarrow> int \<Rightarrow> int \<Rightarrow> bool \<Rightarrow> int \<Rightarrow> int
     \<Rightarrow> error + rgba option" where
  "pick_logo_color logo_img logo_w logo_h total_modules qz row col want_dark thr radius =
     (let R = row + qz; C = col + qz
      in case center_xy logo_w logo_h total_modules R C of
           Inl e \<Rightarrow> Inl e
         | Inr cxy \<Rightarrow>
             (case getpixel logo_img cxy of
                Inl e \<Rightarrow> Inl e
              | Inr px \<Rightarrow>
                  let dark = is_dark_rgba thr px;
                      ok = (dark = want_dark)
                  in if ok then Inr (Some px)
                     else search_neighbors logo_img logo_w logo_h total_modules R C want_dark thr
                            (offsets_sorted radius)))"

section \<open>Colour synthesis\<close>

definition adjust_color_toward :: "rgb \<Rightarrow> bool \<Rightarrow> real \<Rightarrow> rgb" where
  "adjust_color_toward c toward_dark strength =
     (case c of (r, g, b) \<Rightarrow>
        let (r', g', b') =
              (if toward_dark
               then (py_round (of_int r * (1 - strength)),
                     py_round (of_int g * (1 - strength)),
                     py_round (of_int b * (1 - strength)))
               else (py_round (of_int r + (255 - of_int r) * strength),
                     py_round (of_int g + (255 - of_int g) * strength),
                     py_round (of_int b + (255 - of_int b) * strength)))
        in (clamp r' 0 255, clamp g' 0 255, clamp b' 0 255))"

section \<open>Overlay\<close>

text \<open>
  The search of the 7 by 7 neighbourhood for an opaque pixel, in the order of the two
  loops (\<open>dy\<close> outside, \<open>dx\<close> inside); the result is \<^verbatim>\<open>found\<close>.
\<close>

fun find_opaque :: "image \<Rightarrow> int \<Rightarrow> int \<Rightarrow> int \<Rightarrow> int \<Rightarrow> (int \<times> int) list \<Rightarrow> error + rgba option" where
  "find_opaque logo Lw Lh cx cy [] = Inr None"
| "find_opaque logo Lw Lh cx cy ((dy, dx) # rest) =
     (case getpixel logo (clamp (cx + dx) 0 (Lw - 1), clamp (cy + dy) 0 (Lh - 1)) of
        Inl e \<Rightarrow> Inl e
      | Inr p \<Rightarrow>
          if snd (snd (snd p)) \<ge> 10 then Inr (Some p)
          else find_opaque logo Lw Lh cx cy rest)"

definition window7 :: "(int \<times> int) list" where
  "window7 = concat (map (\<lambda>dy. map (\<lambda>dx. (dy, dx)) [- 3..3]) [- 3..3])"

text \<open>The branch \<^verbatim>\<open>if pix is None\<close> of the loop body: the synthesized colour.\<close>

definition synthesize_color ::
  "image \<Rightarrow> int \<Rightarrow> int \<Rightarrow> int \<Rightarrow> int \<Rightarrow> int \<Rightarrow> int \<Rightarrow> bool \<Rightarrow> int \<Rightarrow> error + rgba" where
  "synthesize_color logo Lw Lh total_modules qz row col want_dark alpha =
     (let R = row + qz; C = col + qz
      in if total_modules = 0 then Inl ZeroDivisionError
         else
           let f = 1 / of_int total_modules;
               cx = clamp (py_round ((of_int C + 1 / 2) * f * of_int Lw)) 0 (Lw - 1);
               cy = clamp (py_round ((of_int R + 1 / 2) * f * of_int Lh)) 0 (Lh - 1)
           in case getpixel logo (cx, cy) of
                Inl e \<Rightarrow> Inl e
              | Inr base \<Rightarrow>
                  (case (if snd (snd (snd base)) < 10
                         then (case find_opaque logo Lw Lh cx cy window7 of
                                 Inl e \<Rightarrow> Inl e
                               | Inr found \<Rightarrow>
                                   Inr (case found of Some p \<Rightarrow> p | None \<Rightarrow> (0, 0, 0, 255)))
                         else Inr base) of
                     Inl e \<Rightarrow> Inl e
                   | Inr (r, g, b, a) \<Rightarrow>
                       (case adjust_color_toward (r, g, b) want_dark (40 / 100) of
                          (r', g', b') \<Rightarrow> Inr (r', g', b', alpha))))"

text \<open>What one iteration paints: a rectangle \<open>(x0, y0, x1, y1)\<close> and its fill.\<close>

type_synonym paint = "(int \<times> int \<times> int \<times> int) \<times> rgba"

definition module_rect ::
  "int \<Rightarrow> int \<Rightarrow> int \<Rightarrow> int \<Rightarrow> int \<Rightarrow> real \<Rightarrow> int \<Rightarrow> int \<Rightarrow> error + (int \<times> int \<times> int \<times> int)" where
  "module_rect Lw Lh n total_modules qz square_frac row col =
     (if in_finder n row col then cell_bounds Lw Lh total_modules qz row col
      else if total_modules = 0 then Inl ZeroDivisionError
      else
        let f = 1 / of_int total_modules;
            Ctot = col + qz;
            Rtot = row + qz;
            cx = py_round ((of_int Ctot + 1 / 2) * f * of_int Lw);
            cy = py_round ((of_int Rtot + 1 / 2) * f * of_int Lh);
            side = max 1 (py_round (min (of_int Lw / of_int total_modules)
                                        (of_int Lh / of_int total_modules) * square_frac));
            half = side div 2;
            x0 = clamp (cx - half) 0 (Lw - 1);
            y0 = clamp (cy - half) 0 (Lh - 1);
            x1 = clamp (x0 + side - 1) 0 (Lw - 1);
            y1 = clamp (y0 + side - 1) 0 (Lh - 1)
        in Inr (x0, y0, x1, y1))"

text \<open>
  \<^verbatim>\<open>ImageDraw.rectangle\<close> refuses a rectangle whose second corner lies before the
  first: it raises \<^verbatim>\<open>ValueError\<close>.
\<close>

definition check_rectangle :: "int \<times> int \<times> int \<times> int \<Rightarrow> error + (int \<times> int \<times> int \<times> int)" where
  "check_rectangle rect =
     (case rect of (x0, y0, x1, y1) \<Rightarrow>
        if x1 < x0 \<or> y1 < y0 then Inl InvalidRectangle else Inr rect)"

text \<open>The body of the two loops over \<open>row\<close> and \<open>col\<close>.\<close>

definition paint_module ::
  "image \<Rightarrow> image \<Rightarrow> QRGeometry \<Rightarrow> real \<Rightarrow> int \<Rightarrow> int \<Rightarrow> int option \<Rightarrow> int \<Rightarrow> int \<times> int
     \<Rightarrow> error + paint" where
  "paint_module qr_img logo geo square_frac radius threshold_logo threshold_qr alpha rc =
     (case rc of (row, col) \<Rightarrow>
        let Lw = width logo; Lh = height logo;
            n = n_modules geo; qz = qz_modules geo;
            total_modules = n + 2 * qz
        in case sample_qr_module_dark qr_img geo threshold_qr row col of
             Inl e \<Rightarrow> Inl e
           | Inr want_dark \<Rightarrow>
               (case pick_logo_color logo Lw Lh total_modules qz row col want_dark
                       threshold_logo radius of
                  Inl e \<Rightarrow> Inl e
                | Inr pix \<Rightarrow>
                    (case (case pix of
                             None \<Rightarrow>
                               synthesize_color logo Lw Lh total_modules qz row col want_dark alpha
                           | Some (r, g, b, a) \<Rightarrow> Inr (r, g, b, alpha)) of
                       Inl e \<Rightarrow> Inl e
                     | Inr pix' \<Rightarrow>
                         (case module_rect Lw Lh n total_modules qz square_frac row col of
                            Inl e \<Rightarrow> Inl e
                          | Inr rect \<Rightarrow>
                              (case check_rectangle rect of
                                 Inl e \<Rightarrow> Inl e
                               | Inr rect' \<Rightarrow> Inr (rect', pix'))))))"

text \<open>A loop whose body may raise: the first error ends it.\<close>

fun for_each :: "('a \<Rightarrow> error + 'b) \<Rightarrow> 'a list \<Rightarrow> error + 'b list" where
  "for_each body [] = Inr []"
| "for_each body (x # xs) =
     (case body x of
        Inl e \<Rightarrow> Inl e
      | Inr y \<Rightarrow> (case for_each body xs of Inl e \<Rightarrow> Inl e | Inr ys \<Rightarrow> Inr (y # ys)))"

definition module_grid :: "int \<Rightarrow> (int \<times> int) list" where
  "module_grid n = concat (map (\<lambda>row. map (\<lambda>col. (row, col)) [0..n - 1]) [0..n - 1])"

text \<open>
  \<^verbatim>\<open>ImageDraw.rectangle\<close> with a fill sets the pixels of an accepted rectangle, both
  ends included; the overlay starts transparent.
\<close>

definition draw_rectangle :: "image \<Rightarrow> paint \<Rightarrow> image" where
  "draw_rectangle img p =
     (case p of ((x0, y0, x1, y1), fill) \<Rightarrow>
        img \<lparr> pixels := (\<lambda>x y. if x0 \<le> x \<and> x \<le> x1 \<and> y0 \<le> y \<and> y \<le> y1 then fill
                                 else pixels img x y) \<rparr>)"

text \<open>
  \<^verbatim>\<open>build_overlay\<close> on the two opened images (\<open>qr_gray\<close> is \<^verbatim>\<open>to_gray(qr_img)\<close>); the result
  is the overlay that the source saves. \<open>overlay_paints\<close> is the list of the rectangles
  in the order in which they are drawn.
\<close>

definition overlay_paints ::
  "image \<Rightarrow> image \<Rightarrow> QRGeometry \<Rightarrow> real \<Rightarrow> int \<Rightarrow> int \<Rightarrow> int option \<Rightarrow> int \<Rightarrow> error + paint list" where
  "overlay_paints qr_img logo geo square_frac radius threshold_logo threshold_qr alpha =
     for_each (paint_module qr_img logo geo square_frac radius threshold_logo threshold_qr alpha)
       (module_grid (n_modules geo))"

definition build_overlay ::
  "image \<Rightarrow> nat list list \<Rightarrow> image \<Rightarrow> int option \<Rightarrow> int option \<Rightarrow> real \<Rightarrow> int \<Rightarrow> int
     \<Rightarrow> int option \<Rightarrow> bool \<Rightarrow> int \<Rightarrow> error + image" where
  "build_overlay qr_img qr_gray logo modules_override quiet_override square_frac radius
     threshold_logo threshold_qr skip_finders alpha =
     (let Lw = width logo; Lh = height logo
      in case (case (modules_override, quiet_override) of
                 (Some m, Some q) \<Rightarrow> geo_from_exact_dims qr_img m q
               | _ \<Rightarrow> detect_qr_geometry qr_img qr_gray threshold_qr) of
           Inl e \<Rightarrow> Inl e
         | Inr geo \<Rightarrow>
             let n = n_modules geo; qz = qz_modules geo;
                 total_modules = n + 2 * qz;
                 overlay = \<lparr> width = Lw, height = Lh, pixels = (\<lambda>x y. (0, 0, 0, 0)) \<rparr>
             in if total_modules = 0 then Inl ZeroDivisionError
                else
                  case overlay_paints qr_img logo geo square_frac radius threshold_logo
                         threshold_qr alpha of
                    Inl e \<Rightarrow> Inl e
                  | Inr ps \<Rightarrow> Inr (foldl draw_rectangle overlay ps))"

section \<open>Notions used in the statements\<close>

text \<open>
  Where a channel is after it has moved 40 percent of the way from \<open>c\<close> to 0 (dark) or
  to 255 (light), before rounding; a channel \<open>c'\<close> is acceptable when it is a byte and
  lies within one half of that value.
\<close>

definition channel_target :: "bool \<Rightarrow> int \<Rightarrow> real" where
  "channel_target toward_dark c =
     of_int c + (40 / 100) * ((if toward_dark then 0 else 255) - of_int c)"

definition channel_ok :: "bool \<Rightarrow> int \<Rightarrow> int \<Rightarrow> bool" where
  "channel_ok toward_dark c c' =
     (0 \<le> c' \<and> c' \<le> 255 \<and> \<bar>of_int c' - channel_target toward_dark c\<bar> \<le> 1 / 2)"


text \<open>A bitmap of one colour, for concrete inputs.\<close>

definition uniform_image :: "int \<Rightarrow> int \<Rightarrow> rgba \<Rightarrow> image" where
  "uniform_image w h c = \<lparr> width = w, height = h, pixels = (\<lambda>x y. c) \<rparr>"

text \<open>
  The invariant of the data model: the extents of the content box agree with
  \<open>module_px \<times> n_modules\<close> within one pixel.
\<close>

definition box_consistent :: "QRGeometry \<Rightarrow> bool" where
  "box_consistent geo =
     (case content_box geo of (left_x, top_y, right_x, bottom_y) \<Rightarrow>
        \<bar>of_int (right_x - left_x + 1) - module_px geo * of_int (n_modules geo)\<bar> \<le> 1 \<and>
        \<bar>of_int (bottom_y - top_y + 1) - module_px geo * of_int (n_modules geo)\<bar> \<le> 1)"

text \<open>
  The module counts \<^verbatim>\<open>n_w\<close> and \<^verbatim>\<open>n_h\<close> of the inference, read back from the content
  box and the module size of its result, and the threshold \<^verbatim>\<open>t\<close> it works with.
\<close>

definition width_count :: "QRGeometry \<Rightarrow> int" where
  "width_count geo =
     (case content_box geo of (left_x, top_y, right_x, bottom_y) \<Rightarrow>
        py_round (of_int (right_x - left_x + 1) / module_px geo))"

definition height_count :: "QRGeometry \<Rightarrow> int" where
  "height_count geo =
     (case content_box geo of (left_x, top_y, right_x, bottom_y) \<Rightarrow>
        py_round (of_int (bottom_y - top_y + 1) / module_px geo))"

definition threshold_used :: "nat list list \<Rightarrow> int option \<Rightarrow> int" where
  "threshold_used gray qr_threshold =
     (case qr_threshold of Some q \<Rightarrow> q | None \<Rightarrow> otsu_threshold gray)"

text \<open>
  The logo pixel that \<^verbatim>\<open>pick_logo_color\<close> reads for the grid cell \<open>(r, c)\<close>; the test
  that the search loop makes for an offset (the cell is inside the grid and its pixel
  passes); the alpha channel; and the condition under which the reads of the logo
  cannot fail (a grid size other than 0, and the sizes passed are those of a logo of
  at least one pixel).
\<close>

definition logo_sample :: "image \<Rightarrow> int \<Rightarrow> int \<Rightarrow> int \<Rightarrow> int \<Rightarrow> int \<Rightarrow> rgba" where
  "logo_sample logo_img logo_w logo_h total_modules r c =
     pixels logo_img (center_px logo_w total_modules c) (center_px logo_h total_modules r)"

definition neighbor_hit ::
  "image \<Rightarrow> int \<Rightarrow> int \<Rightarrow> int \<Rightarrow> int \<Rightarrow> int \<Rightarrow> bool \<Rightarrow> int \<Rightarrow> int \<times> int \<times> int \<Rightarrow> bool" where
  "neighbor_hit logo_img logo_w logo_h total_modules R C want_dark thr off =
     (case off of (dr, dc, d2) \<Rightarrow>
        0 \<le> R + dr \<and> R + dr < total_modules \<and> 0 \<le> C + dc \<and> C + dc < total_modules \<and>
        neighbor_ok want_dark thr (logo_sample logo_img logo_w logo_h total_modules (R + dr) (C + dc)))"

definition alpha_of :: "rgba \<Rightarrow> int" where
  "alpha_of px = snd (snd (snd px))"

definition logo_ready :: "image \<Rightarrow> int \<Rightarrow> int \<Rightarrow> int \<Rightarrow> bool" where
  "logo_ready logo_img logo_w logo_h total_modules =
     (total_modules \<noteq> 0 \<and> width logo_img = logo_w \<and> height logo_img = logo_h \<and>
      1 \<le> logo_w \<and> 1 \<le> logo_h)"

text \<open>
  The size of the whole grid, quiet zone included.
\<close>

definition grid_total :: "QRGeometry \<Rightarrow> int" where
  "grid_total geo = n_modules geo + 2 * qz_modules geo"

text \<open>
  Concrete inputs: a logo with a black and a white pixel, a fully transparent logo,
  a black logo with one white corner, and a geometry of 2 modules with a quiet zone
  of 1 on a bitmap of 4 by 4 pixels.
\<close>

definition two_tone_logo :: image where
  "two_tone_logo =
     \<lparr> width = 2, height = 1,
       pixels = (\<lambda>x y. if x = 0 then (0, 0, 0, 255) else (255, 255, 255, 255)) \<rparr>"

definition clear_logo :: image where
  "clear_logo = \<lparr> width = 4, height = 4, pixels = (\<lambda>x y. (0, 0, 0, 0)) \<rparr>"


definition small_geometry :: QRGeometry where
  "small_geometry = \<lparr> n_modules = 2, qz_modules = 1, content_box = (1, 1, 2, 2),
                       module_px = 1, thresh = 128, dark_is_lt = True \<rparr>"


text \<open>
  The content box within a distance \<open>d\<close> of \<open>module_px \<times> n_modules\<close>, and the rounding
  error that binary64 allows on the two products \<^verbatim>\<open>qz * module_px\<close> and
  \<^verbatim>\<open>(qz + n) * module_px\<close> of the override path (one part in \<open>2 ^ 53\<close> of each).
\<close>

definition box_within :: "QRGeometry \<Rightarrow> real \<Rightarrow> bool" where
  "box_within geo d =
     (case content_box geo of (left_x, top_y, right_x, bottom_y) \<Rightarrow>
        \<bar>of_int (right_x - left_x + 1) - module_px geo * of_int (n_modules geo)\<bar> \<le> d \<and>
        \<bar>of_int (bottom_y - top_y + 1) - module_px geo * of_int (n_modules geo)\<bar> \<le> d)"

definition float_slack :: "QRGeometry \<Rightarrow> real" where
  "float_slack geo =
     (\<bar>of_int (qz_modules geo) * module_px geo\<bar>
        + \<bar>of_int (qz_modules geo + n_modules geo) * module_px geo\<bar>) / 2 ^ 53"

text \<open>
  The two classes that a threshold \<open>t\<close> makes of the pixels in \<^verbatim>\<open>otsu_threshold\<close>
  (values up to \<open>t\<close>, values above \<open>t\<close>) and the between-class variance of these classes
  as the loop computes it, in binary64. A threshold is a candidate when it is below 256
  and both classes are inhabited. \<open>stated_variance\<close> is the same computation for the
  partition into the values below \<open>t\<close> and the values from \<open>t\<close> on.
\<close>

definition class_lo :: "nat list \<Rightarrow> nat \<Rightarrow> nat list" where
  "class_lo px t = filter (\<lambda>v. v \<le> t) px"

definition class_hi :: "nat list \<Rightarrow> nat \<Rightarrow> nat list" where
  "class_hi px t = filter (\<lambda>v. t < v) px"

definition computed_variance :: "nat list \<Rightarrow> nat \<Rightarrow> real" where
  "computed_variance px t =
     var_between (int (length (class_lo px t))) (int (length (class_hi px t)))
       (int (sum_list (class_lo px t))) (int (sum_list px))"

definition stated_variance :: "nat list \<Rightarrow> nat \<Rightarrow> real" where
  "stated_variance px t =
     var_between (int (length (filter (\<lambda>v. v < t) px))) (int (length (filter (\<lambda>v. t \<le> v) px)))
       (int (sum_list (filter (\<lambda>v. v < t) px))) (int (sum_list px))"

definition otsu_candidate :: "nat list \<Rightarrow> nat \<Rightarrow> bool" where
  "otsu_candidate px t = (t < 256 \<and> class_lo px t \<noteq> [] \<and> class_hi px t \<noteq> [])"

text \<open>
  The loop from iteration \<open>t\<close> on, with the running sums that belong to \<open>t\<close>, and
  what the loop knows before iteration \<open>n\<close>: the first threshold of greatest computed
  variance among the candidates below \<open>n\<close>, or the initial values when there is none.
\<close>

definition otsu_from :: "nat list \<Rightarrow> nat \<Rightarrow> real \<Rightarrow> int \<Rightarrow> int" where
  "otsu_from px t max_var thr =
     otsu_loop (histogram px) (int (length px)) (int (sum_list px)) t
       (int (sum_list (filter (\<lambda>v. v < t) px))) (int (length (filter (\<lambda>v. v < t) px)))
       max_var thr"

definition otsu_best :: "nat list \<Rightarrow> nat \<Rightarrow> real \<Rightarrow> int \<Rightarrow> bool" where
  "otsu_best px n max_var thr =
     (if \<exists>i<n. otsu_candidate px i
      then \<exists>k<n. thr = int k \<and> otsu_candidate px k \<and> max_var = computed_variance px k \<and>
                 (\<forall>i<n. otsu_candidate px i \<longrightarrow> computed_variance px i \<le> computed_variance px k) \<and>
                 (\<forall>i<k. otsu_candidate px i \<longrightarrow> computed_variance px i < computed_variance px k)
      else max_var = - 1 \<and> thr = 128)"

section \<open>Rounding and clamping\<close>

lemma py_round_close: "\<bar>of_int (py_round x) - x\<bar> \<le> 1 / 2"
proof -
  have "of_int \<lfloor>x\<rfloor> \<le> x" "x < of_int \<lfloor>x\<rfloor> + 1" by linarith+
  then show ?thesis
    by (auto simp: py_round_def Let_def abs_le_iff)
qed

lemma clamp_range: "lo \<le> hi \<Longrightarrow> lo \<le> clamp v lo hi \<and> clamp v lo hi \<le> hi"
  by (simp add: clamp_def)

lemma clamp_id: "lo \<le> v \<Longrightarrow> v \<le> hi \<Longrightarrow> clamp v lo hi = v"
  by (simp add: clamp_def)

lemma py_round_mono_bounds:
  assumes "of_int a \<le> x" "x \<le> of_int b"
  shows "a \<le> py_round x \<and> py_round x \<le> b"
proof -
  have f: "a \<le> \<lfloor>x\<rfloor>" using assms(1) by (simp add: le_floor_iff)
  have "x = of_int b \<or> x < of_int b" using assms(2) by linarith
  then have "x = of_int b \<or> \<lfloor>x\<rfloor> < b" by (simp add: floor_less_iff)
  then show ?thesis using f
    by (auto simp: py_round_def Let_def)
qed

lemma channel_step_dark:
  assumes "0 \<le> c" "c \<le> 255"
  shows "0 \<le> clamp (py_round (of_int c * (1 - 40 / 100))) 0 255
    \<and> clamp (py_round (of_int c * (1 - 40 / 100))) 0 255 \<le> 255
    \<and> \<bar>of_int (clamp (py_round (of_int c * (1 - 40 / 100))) 0 255) - channel_target True c\<bar> \<le> 1 / 2"
proof -
  let ?d = "of_int c * (1 - 40 / 100) :: real"
  have d: "of_int 0 \<le> ?d" "?d \<le> of_int 255" using assms by simp_all
  have rd: "0 \<le> py_round ?d \<and> py_round ?d \<le> 255" using py_round_mono_bounds[OF d] .
  have c1: "clamp (py_round ?d) 0 255 = py_round ?d" using rd by (simp add: clamp_id)
  have eq: "channel_target True c = ?d" by (simp add: channel_target_def algebra_simps)
  have "\<bar>of_int (py_round ?d) - ?d\<bar> \<le> 1 / 2" by (rule py_round_close)
  then show ?thesis using rd by (simp only: c1 eq)
qed

lemma channel_step_light:
  assumes "0 \<le> c" "c \<le> 255"
  shows "0 \<le> clamp (py_round (of_int c + (255 - of_int c) * (40 / 100))) 0 255
    \<and> clamp (py_round (of_int c + (255 - of_int c) * (40 / 100))) 0 255 \<le> 255
    \<and> \<bar>of_int (clamp (py_round (of_int c + (255 - of_int c) * (40 / 100))) 0 255) - channel_target False c\<bar> \<le> 1 / 2"
proof -
  let ?l = "of_int c + (255 - of_int c) * (40 / 100) :: real"
  have l: "of_int 0 \<le> ?l" "?l \<le> of_int 255" using assms by (simp_all add: field_simps)
  have rl: "0 \<le> py_round ?l \<and> py_round ?l \<le> 255" using py_round_mono_bounds[OF l] .
  have c1: "clamp (py_round ?l) 0 255 = py_round ?l" using rl by (simp add: clamp_id)
  have eq: "channel_target False c = ?l" by (simp add: channel_target_def algebra_simps)
  have "\<bar>of_int (py_round ?l) - ?l\<bar> \<le> 1 / 2" by (rule py_round_close)
  then show ?thesis using rl by (simp only: c1 eq)
qed


lemma uniform_image_simps [simp]:
  "width (uniform_image w h c) = w" "height (uniform_image w h c) = h"
  "pixels (uniform_image w h c) x y = c"
  by (simp_all add: uniform_image_def)

lemma py_round_diff:
  "\<bar>of_int (py_round a - py_round b) - (a - b)\<bar> \<le> 1"
proof -
  have "\<bar>of_int (py_round a) - a\<bar> \<le> 1 / 2" "\<bar>of_int (py_round b) - b\<bar> \<le> 1 / 2"
    by (rule py_round_close)+
  then have "\<bar>(of_int (py_round a) - a) - (of_int (py_round b) - b)\<bar> \<le> 1"
    by linarith
  then show ?thesis by (simp add: algebra_simps)
qed

section \<open>The stages of the inference\<close>

lemma length_filter_nth:
  "length (filter (\<lambda>x. row ! x) [0..<length row]) = length (filter (\<lambda>b. b) row)"
proof -
  have "length (filter (\<lambda>b. b) (map (\<lambda>x. row ! x) [0..<length row]))
        = length (filter (\<lambda>x. row ! x) [0..<length row])"
    by (simp add: filter_map comp_def)
  then show ?thesis by (simp only: map_nth)
qed

lemma length_np_where: "int (length (np_where m)) = mask_sum m"
proof -
  have "length (np_where m)
        = sum_list (map (\<lambda>y. length (filter (\<lambda>b. b) (m ! y))) [0..<length m])"
    by (simp add: np_where_def length_concat comp_def length_filter_nth)
  also have "\<dots> = sum_list (map (\<lambda>row. length (filter (\<lambda>b. b) row)) m)"
  proof -
    have "map (\<lambda>y. length (filter (\<lambda>b. b) (m ! y))) [0..<length m]
          = map (\<lambda>row. length (filter (\<lambda>b. b) row)) (map (\<lambda>y. m ! y) [0..<length m])"
      by (simp add: comp_def)
    then show ?thesis by (simp only: map_nth)
  qed
  also have "\<dots> = length (filter (\<lambda>b. b) (concat m))"
    by (induction m) simp_all
  finally show ?thesis by (simp add: mask_sum_def)
qed

lemma mask_sum_nonneg: "0 \<le> mask_sum m"
  by (simp add: mask_sum_def)

lemma choose_mask_eq:
  "choose_mask gray t =
     (if mask_sum (mask_lt gray t) = 0 \<and> mask_sum (mask_gt gray t) = 0
      then Inl NoModulesDetected
      else Inr (mask_sum (mask_lt gray t) \<ge> mask_sum (mask_gt gray t),
                if mask_sum (mask_lt gray t) \<ge> mask_sum (mask_gt gray t)
                then mask_lt gray t else mask_gt gray t))"
proof -
  let ?l = "mask_sum (mask_lt gray t)" and ?g = "mask_sum (mask_gt gray t)"
  have nn: "0 \<le> ?l" "0 \<le> ?g" by (rule mask_sum_nonneg)+
  have w: "\<And>m. (np_where m = []) = (mask_sum m = 0)"
  proof -
    fix m
    have "int (length (np_where m)) = mask_sum m" by (rule length_np_where)
    then show "(np_where m = []) = (mask_sum m = 0)" by (cases "np_where m") auto
  qed
  show ?thesis
  proof (cases "?l = 0 \<and> ?g = 0")
    case True
    then show ?thesis by (simp add: choose_mask_def)
  next
    case False
    show ?thesis
    proof (cases "?l \<ge> ?g")
      case True
      with False nn have "?l > 0" by linarith
      with True False show ?thesis by (simp add: choose_mask_def Let_def w)
    next
      case False
      with nn have "?g > 0" by linarith
      with False show ?thesis by (simp add: choose_mask_def Let_def w)
    qed
  qed
qed

lemma estimate_module_px_not_NoModules:
  "estimate_module_px bb box = Inl e \<Longrightarrow> e \<noteq> NoModulesDetected"
  by (auto simp: estimate_module_px_def Let_def split: prod.splits list.splits if_splits)

lemma detect_qr_geometry_not_NoModules:
  assumes cm: "choose_mask gray (threshold_used gray thr) = Inr (u, bb)"
  shows "detect_qr_geometry qr_img gray thr \<noteq> Inl NoModulesDetected"
proof -
  have t: "(case thr of None \<Rightarrow> otsu_threshold gray | Some q \<Rightarrow> q) = threshold_used gray thr"
    by (simp add: threshold_used_def)
  obtain l tp r b where box: "bounding_box bb = (l, tp, r, b)"
    by (cases "bounding_box bb") auto
  show "detect_qr_geometry qr_img gray thr \<noteq> Inl NoModulesDetected"
  proof (cases "estimate_module_px bb (l, tp, r, b)")
    case (Inl e)
    then show ?thesis using estimate_module_px_not_NoModules [OF Inl]
      by (simp add: detect_qr_geometry_def t cm box Let_def)
  next
    case (Inr mpx)
    then show ?thesis
      by (simp add: detect_qr_geometry_def t cm box Let_def)
  qed
qed

lemma detect_qr_geometry_Inr_fields:
  assumes cm: "choose_mask gray (threshold_used gray thr) = Inr (u, bb)"
    and d: "detect_qr_geometry qr_img gray thr = Inr geo"
  shows "dark_is_lt geo = u \<and> thresh geo = threshold_used gray thr \<and>
         n_modules geo =
          (if width_count geo \<noteq> height_count geo
           then py_round (of_int (width_count geo + height_count geo) / 2)
           else width_count geo)"
proof -
  have t: "(case thr of None \<Rightarrow> otsu_threshold gray | Some q \<Rightarrow> q) = threshold_used gray thr"
    by (simp add: threshold_used_def)
  obtain l tp r b where box: "bounding_box bb = (l, tp, r, b)"
    by (cases "bounding_box bb") auto
  show ?thesis
  proof (cases "estimate_module_px bb (l, tp, r, b)")
    case (Inl e)
    then show ?thesis using d
      by (simp add: detect_qr_geometry_def t cm box Let_def)
  next
    case (Inr mpx)
    define n_w where "n_w = py_round (of_int (r - l + 1) / mpx)"
    define n_h where "n_h = py_round (of_int (b - tp + 1) / mpx)"
    define n where "n = (if n_w \<noteq> n_h then py_round (of_int (n_w + n_h) / 2) else n_w)"
    have g: "geo = \<lparr> n_modules = n,
        qz_modules = max 0 (py_round (of_int (min (min l tp)
                        (min (width qr_img - 1 - r) (height qr_img - 1 - b))) / mpx)),
        content_box = (l, tp, r, b), module_px = mpx,
        thresh = threshold_used gray thr, dark_is_lt = u \<rparr>"
      using d unfolding detect_qr_geometry_def t cm box Let_def sum.case prod.case Inr
        n_w_def [symmetric] n_h_def [symmetric] n_def [symmetric]
      by (simp split: if_splits)
    have wc: "width_count geo = n_w" "height_count geo = n_h"
      by (simp_all add: g width_count_def height_count_def n_w_def n_h_def)
    have f: "dark_is_lt geo = u" "thresh geo = threshold_used gray thr" "n_modules geo = n"
      by (simp_all add: g)
    show ?thesis unfolding f wc n_def by simp
  qed
qed

lemma detect_qr_geometry_Inr_mask:
  assumes "detect_qr_geometry qr_img gray thr = Inr geo"
  shows "\<exists>u bb. choose_mask gray (threshold_used gray thr) = Inr (u, bb)"
proof (cases "choose_mask gray (threshold_used gray thr)")
  case (Inl e)
  have t: "(case thr of None \<Rightarrow> otsu_threshold gray | Some q \<Rightarrow> q) = threshold_used gray thr"
    by (simp add: threshold_used_def)
  show ?thesis using assms by (simp add: detect_qr_geometry_def t Inl)
next
  case (Inr p)
  then show ?thesis by (cases p) simp
qed

section \<open>The search of the picker\<close>

lemma center_px_range: "1 \<le> e \<Longrightarrow> 0 \<le> center_px e t c \<and> center_px e t c < e"
  by (simp add: center_px_def clamp_def)

lemma getpixel_center:
  assumes "logo_ready logo_img logo_w logo_h total_modules"
  shows "center_xy logo_w logo_h total_modules r c =
           Inr (center_px logo_w total_modules c, center_px logo_h total_modules r)"
    and "getpixel logo_img (center_px logo_w total_modules c, center_px logo_h total_modules r) =
           Inr (logo_sample logo_img logo_w logo_h total_modules r c)"
  using assms center_px_range [of logo_w total_modules c] center_px_range [of logo_h total_modules r]
  by (simp_all add: logo_ready_def center_xy_def getpixel_def logo_sample_def)

lemma search_neighbors_find:
  assumes "logo_ready logo_img logo_w logo_h total_modules"
  shows "search_neighbors logo_img logo_w logo_h total_modules R C want_dark thr offs =
     Inr (case List.find (neighbor_hit logo_img logo_w logo_h total_modules R C want_dark thr) offs of
            None \<Rightarrow> None
          | Some (dr, dc, d2) \<Rightarrow>
              Some (logo_sample logo_img logo_w logo_h total_modules (R + dr) (C + dc)))"
proof (induction offs)
  case Nil
  show ?case by simp
next
  case (Cons off offs)
  obtain dr dc d2 where off: "off = (dr, dc, d2)" by (cases off) auto
  show ?case
    using Cons.IH
    by (simp add: off getpixel_center [OF assms] neighbor_hit_def Let_def)
qed

lemma pick_logo_color_eq:
  assumes "logo_ready logo_img logo_w logo_h total_modules"
  shows "pick_logo_color logo_img logo_w logo_h total_modules qz row col want_dark thr radius =
     Inr (if is_dark_rgba thr (logo_sample logo_img logo_w logo_h total_modules (row + qz) (col + qz))
              = want_dark
          then Some (logo_sample logo_img logo_w logo_h total_modules (row + qz) (col + qz))
          else (case List.find (neighbor_hit logo_img logo_w logo_h total_modules (row + qz) (col + qz)
                                  want_dark thr) (offsets_sorted radius) of
                  None \<Rightarrow> None
                | Some (dr, dc, d2) \<Rightarrow>
                    Some (logo_sample logo_img logo_w logo_h total_modules
                            (row + qz + dr) (col + qz + dc))))"
  by (simp add: pick_logo_color_def Let_def getpixel_center [OF assms]
      search_neighbors_find [OF assms])

lemma find_hit:
  "List.find P xs = Some x \<Longrightarrow> P x \<and> x \<in> set xs"
  by (induction xs) (auto split: if_splits)





lemma neighbor_ok_iff:
  "neighbor_ok want_dark thr p \<longleftrightarrow> is_dark_rgba thr p = want_dark \<and> 10 \<le> alpha_of p"
  by (cases p) (auto simp: neighbor_ok_def is_dark_rgba_def alpha_of_def)

section \<open>The steps of one iteration\<close>

lemma getpixel_clamped:
  "1 \<le> width img \<Longrightarrow> 1 \<le> height img \<Longrightarrow>
   getpixel img (clamp x 0 (width img - 1), clamp y 0 (height img - 1)) =
     Inr (pixels img (clamp x 0 (width img - 1)) (clamp y 0 (height img - 1)))"
  by (simp add: getpixel_def clamp_def)

lemma sample_qr_module_dark_ok:
  assumes "n_modules geo \<noteq> 0" "1 \<le> width qr_img" "1 \<le> height qr_img"
  shows "\<exists>d. sample_qr_module_dark qr_img geo thr_qr row col = Inr d"
proof -
  obtain l t r b where box: "content_box geo = (l, t, r, b)" by (cases "content_box geo") auto
  show ?thesis
    using assms
    by (simp add: sample_qr_module_dark_def box Let_def getpixel_clamped split: prod.splits)
qed

lemma find_opaque_ok:
  assumes "width logo = Lw" "height logo = Lh" "1 \<le> Lw" "1 \<le> Lh"
  shows "\<exists>found. find_opaque logo Lw Lh cx cy offs = Inr found"
proof (induction offs)
  case Nil
  show ?case by simp
next
  case (Cons off offs)
  obtain dy dx where off: "off = (dy, dx)" by (cases off) auto
  have "getpixel logo (clamp (cx + dx) 0 (Lw - 1), clamp (cy + dy) 0 (Lh - 1)) =
          Inr (pixels logo (clamp (cx + dx) 0 (Lw - 1)) (clamp (cy + dy) 0 (Lh - 1)))"
    using getpixel_clamped [of logo "cx + dx" "cy + dy"] assms by simp
  with Cons.IH show ?case by (simp add: off)
qed

lemma synthesize_color_ok:
  assumes "logo_ready logo Lw Lh total_modules"
  shows "\<exists>r g b. synthesize_color logo Lw Lh total_modules qz row col want_dark alpha =
           Inr (r, g, b, alpha)"
proof -
  have w: "width logo = Lw" "height logo = Lh" "1 \<le> Lw" "1 \<le> Lh" "total_modules \<noteq> 0"
    using assms by (simp_all add: logo_ready_def)
  define cx where "cx = clamp (py_round ((of_int (col + qz) + 1 / 2) * (1 / of_int total_modules) * of_int Lw)) 0 (Lw - 1)"
  define cy where "cy = clamp (py_round ((of_int (row + qz) + 1 / 2) * (1 / of_int total_modules) * of_int Lh)) 0 (Lh - 1)"
  have gp: "getpixel logo (cx, cy) = Inr (pixels logo cx cy)"
    using getpixel_clamped [of logo] w by (simp add: cx_def cy_def)
  obtain found where fo: "find_opaque logo Lw Lh cx cy window7 = Inr found"
    using find_opaque_ok [OF w(1-4)] by blast
  define base where "base = (if snd (snd (snd (pixels logo cx cy))) < 10
                              then (case found of Some p \<Rightarrow> p | None \<Rightarrow> (0, 0, 0, 255))
                              else pixels logo cx cy)"
  obtain r g b a where base: "base = (r, g, b, a)" by (cases base) auto
  obtain r' g' b' where adj: "adjust_color_toward (r, g, b) want_dark (40 / 100) = (r', g', b')"
    by (cases "adjust_color_toward (r, g, b) want_dark (40 / 100)") auto
  have "synthesize_color logo Lw Lh total_modules qz row col want_dark alpha = Inr (r', g', b', alpha)"
    unfolding synthesize_color_def Let_def cx_def [symmetric] cy_def [symmetric]
    using w(5) gp fo base adj by (simp add: base_def split: if_splits)
  then show ?thesis by blast
qed

lemma module_rect_ok:
  "total_modules \<noteq> 0 \<Longrightarrow> \<exists>rect. module_rect Lw Lh n total_modules qz sf row col = Inr rect"
  by (simp add: module_rect_def cell_bounds_def Let_def)

lemma for_each_ok:
  "(\<And>x. x \<in> set xs \<Longrightarrow> \<exists>y. body x = Inr y \<and> P y) \<Longrightarrow>
   \<exists>ys. for_each body xs = Inr ys \<and> length ys = length xs \<and> (\<forall>y \<in> set ys. P y)"
proof (induction xs)
  case Nil
  show ?case by simp
next
  case (Cons x xs)
  from Cons.prems obtain y where y: "body x = Inr y" "P y" by auto
  from Cons obtain ys where ys: "for_each body xs = Inr ys" "length ys = length xs" "\<forall>y \<in> set ys. P y"
    by auto
  show ?case using y ys by simp
qed

lemma length_module_grid: "length (module_grid n) = nat n * nat n"
  by (simp add: module_grid_def length_concat comp_def sum_list_triv)

lemma set_module_grid:
  "set (module_grid n) = {(row, col). 0 \<le> row \<and> row < n \<and> 0 \<le> col \<and> col < n}"
  by (auto simp: module_grid_def)


section \<open>Rounding to binary64\<close>

lemma pow2_pos: "0 < pow2 k"
  by (simp add: pow2_def)

lemma pow2_powi: "pow2 k = 2 powi k"
  by (simp add: pow2_def power_int_def power_one_over)

lemma pow2_add: "pow2 (a + b) = pow2 a * pow2 b"
  by (simp add: pow2_powi power_int_add)

lemma pow2_0: "pow2 0 = 1"
  by (simp add: pow2_def)

lemma py_round_nonneg: "0 \<le> x \<Longrightarrow> 0 \<le> py_round x"
  by (simp add: py_round_def Let_def)

lemma float64_nonneg: "0 \<le> x \<Longrightarrow> 0 \<le> float64 x"
proof -
  assume x: "0 \<le> x"
  have "0 \<le> x * pow2 (52 - float_exponent x)"
    using x pow2_pos [of "52 - float_exponent x"] by simp
  then have "0 \<le> py_round (x * pow2 (52 - float_exponent x))" by (rule py_round_nonneg)
  then show ?thesis
    using pow2_pos [of "float_exponent x - 52"] by (simp add: float64_def)
qed

lemma float_exponent_le:
  assumes "x \<noteq> 0"
  shows "pow2 (float_exponent x) \<le> \<bar>x\<bar>"
proof (cases "1 \<le> \<bar>x\<bar>")
  case True
  let ?m = "\<lfloor>\<bar>x\<bar>\<rfloor>"
  have m: "0 < ?m" using True by simp
  from bitlen_bounds [OF m] have b: "2 ^ nat (bitlen ?m - 1) \<le> ?m" by simp
  have ge: "0 \<le> bitlen ?m - 1" using m by (auto simp: bitlen_alt_def)
  have "(2 :: real) ^ nat (bitlen ?m - 1) = of_int (2 ^ nat (bitlen ?m - 1))" by simp
  also have "\<dots> \<le> of_int ?m" using b by (simp only: of_int_le_iff)
  also have "\<dots> \<le> \<bar>x\<bar>" by simp
  finally show ?thesis using True ge by (simp add: float_exponent_def pow2_def)
next
  case False
  let ?y = "1 / \<bar>x\<bar>"
  let ?m = "\<lceil>?y\<rceil>"
  have ax: "0 < \<bar>x\<bar>" using assms by simp
  with False have y: "1 < ?y" by simp
  then have m: "0 < ?m - 1" by linarith
  let ?k = "bitlen (?m - 1)"
  from bitlen_bounds [OF m] have b: "?m - 1 < 2 ^ nat ?k" by simp
  then have "?m \<le> 2 ^ nat ?k" by linarith
  then have c: "of_int ?m \<le> (of_int (2 ^ nat ?k) :: real)" by (simp only: of_int_le_iff)
  have d: "(of_int (2 ^ nat ?k) :: real) = 2 ^ nat ?k" by simp
  have "?y \<le> of_int ?m" by (rule le_of_int_ceiling)
  with c d have "?y \<le> 2 ^ nat ?k" by linarith
  then have "1 \<le> 2 ^ nat ?k * \<bar>x\<bar>" using ax by (simp add: field_simps)
  then have le: "1 / 2 ^ nat ?k \<le> \<bar>x\<bar>" by (simp add: field_simps)
  have k: "0 < ?k" using m by (auto simp: bitlen_alt_def)
  show ?thesis using False le k by (simp add: float_exponent_def pow2_def)
qed

lemma float64_error: "\<bar>float64 x - x\<bar> \<le> \<bar>x\<bar> / 2 ^ 53"
proof (cases "x = 0")
  case True
  then show ?thesis by (simp add: float64_def)
next
  case False
  let ?e = "float_exponent x"
  let ?y = "x * pow2 (52 - ?e)"
  have one: "pow2 (52 - ?e) * pow2 (?e - 52) = 1"
    using pow2_add [of "52 - ?e" "?e - 52"] by (simp add: pow2_0)
  have "float64 x - x = (of_int (py_round ?y) - ?y) * pow2 (?e - 52)"
  proof -
    have "?y * pow2 (?e - 52) = x" using one by (simp add: mult.assoc)
    then show ?thesis using False by (simp add: float64_def algebra_simps)
  qed
  then have "\<bar>float64 x - x\<bar> = \<bar>of_int (py_round ?y) - ?y\<bar> * pow2 (?e - 52)"
    using pow2_pos [of "?e - 52"] by (simp add: abs_mult)
  also have "\<dots> \<le> (1 / 2) * pow2 (?e - 52)"
    using py_round_close [of ?y] pow2_pos [of "?e - 52"] by (intro mult_right_mono) simp_all
  also have "\<dots> = pow2 ?e / 2 ^ 53"
  proof -
    have "pow2 (?e - 52) = pow2 ?e * pow2 (- 52)" using pow2_add [of ?e "- 52"] by simp
    then show ?thesis by (simp add: pow2_def)
  qed
  also have "\<dots> \<le> \<bar>x\<bar> / 2 ^ 53"
    using float_exponent_le [OF False] by (simp add: divide_right_mono)
  finally show ?thesis .
qed

section \<open>The running sums and the loop of the threshold selection\<close>

lemma below_Suc_length:
  "int (length (filter (\<lambda>v. v < t) px)) + histogram px t = int (length (class_lo px t))"
  by (induction px) (auto simp: histogram_def class_lo_def)

lemma below_Suc_sum:
  "int (sum_list (filter (\<lambda>v. v < t) px)) + int t * histogram px t
     = int (sum_list (class_lo px t))"
  by (induction px) (auto simp: histogram_def class_lo_def algebra_simps)

lemma class_lengths: "int (length px) - int (length (class_lo px t)) = int (length (class_hi px t))"
proof -
  have "length (class_lo px t) + length (class_hi px t) = length px"
    unfolding class_lo_def class_hi_def
    using sum_length_filter_compl [of "\<lambda>v. v \<le> t" px] by (simp add: not_le)
  then show ?thesis by linarith
qed

lemma sum_total_eq:
  assumes "\<forall>v \<in> set px. v < n"
  shows "(\<Sum>t\<leftarrow>[0..<n]. int t * histogram px t) = int (sum_list px)"
  using assms
proof (induction n arbitrary: px)
  case 0
  then have "px = []" by (cases px) auto
  then show ?case by simp
next
  case (Suc n)
  let ?q = "filter (\<lambda>v. v < n) px"
  have q: "\<forall>v \<in> set ?q. v < n" by simp
  have h: "histogram ?q t = histogram px t" if "t < n" for t
    using that by (induction px) (auto simp: histogram_def)
  have "(\<Sum>t\<leftarrow>[0..<n]. int t * histogram px t) = (\<Sum>t\<leftarrow>[0..<n]. int t * histogram ?q t)"
    by (rule arg_cong [where f = sum_list]) (simp add: h)
  also have "\<dots> = int (sum_list ?q)" by (rule Suc.IH [OF q])
  finally have a: "(\<Sum>t\<leftarrow>[0..<n]. int t * histogram px t) = int (sum_list ?q)" .
  have "class_lo px n = px"
    using Suc.prems by (simp add: class_lo_def less_Suc_eq_le)
  with below_Suc_sum [of n px] a show ?case by simp
qed

lemma below_Suc: "filter (\<lambda>v. v < Suc t) px = class_lo px t"
  by (simp add: class_lo_def less_Suc_eq_le)

lemma otsu_from_step:
  "otsu_from px t mv th =
     (if 256 \<le> t then th
      else if class_lo px t = [] then otsu_from px (Suc t) mv th
      else if class_hi px t = [] then th
      else if computed_variance px t > mv then otsu_from px (Suc t) (computed_variance px t) (int t)
      else otsu_from px (Suc t) mv th)"
proof -
  let ?w = "int (length (filter (\<lambda>v. v < t) px))"
  let ?s = "int (sum_list (filter (\<lambda>v. v < t) px))"
  have w: "?w + histogram px t = int (length (class_lo px t))" by (rule below_Suc_length)
  have s: "?s + int t * histogram px t = int (sum_list (class_lo px t))" by (rule below_Suc_sum)
  have f: "int (length px) - int (length (class_lo px t)) = int (length (class_hi px t))"
    by (rule class_lengths)
  have e: "?s = int (sum_list (class_lo px t))" if "class_lo px t = []"
  proof -
    have "filter (\<lambda>v. v < t) px = []"
      using that by (auto simp: class_lo_def filter_empty_conv)
    with that show ?thesis by simp
  qed
  show ?thesis
    unfolding otsu_from_def
    apply (subst otsu_loop.simps)
    apply (simp only: w s f computed_variance_def [symmetric] below_Suc Suc_eq_plus1 [symmetric])
    apply (simp add: e)
    done
qed

lemma computed_variance_nonneg: "0 \<le> computed_variance px t"
proof -
  have "0 \<le> float64 (float64 (py_truediv (int (sum_list (class_lo px t))) (int (length (class_lo px t)))
           - py_truediv (int (sum_list px) - int (sum_list (class_lo px t)))
               (int (length (class_hi px t)))) ^ 2)"
    by (rule float64_nonneg) simp
  then have "0 \<le> of_int (int (length (class_lo px t)) * int (length (class_hi px t)))
           * float64 (float64 (py_truediv (int (sum_list (class_lo px t))) (int (length (class_lo px t)))
           - py_truediv (int (sum_list px) - int (sum_list (class_lo px t)))
               (int (length (class_hi px t)))) ^ 2)"
    by (intro mult_nonneg_nonneg) simp_all
  then show ?thesis
    unfolding computed_variance_def var_between_def Let_def by (rule float64_nonneg)
qed

lemma class_hi_empty_mono: "class_hi px t = [] \<Longrightarrow> t \<le> i \<Longrightarrow> class_hi px i = []"
  by (auto simp: class_hi_def filter_empty_conv)

lemma otsu_best_skip:
  assumes "otsu_best px n mv th" "\<not> otsu_candidate px n"
  shows "otsu_best px (Suc n) mv th"
proof -
  have e: "(\<exists>i<Suc n. otsu_candidate px i) = (\<exists>i<n. otsu_candidate px i)"
    using assms(2) less_Suc_eq by auto
  show ?thesis
  proof (cases "\<exists>i<n. otsu_candidate px i")
    case True
    with assms(1) obtain k where k: "k < n" "th = int k" "otsu_candidate px k"
      "mv = computed_variance px k"
      "\<forall>i<n. otsu_candidate px i \<longrightarrow> computed_variance px i \<le> computed_variance px k"
      "\<forall>i<k. otsu_candidate px i \<longrightarrow> computed_variance px i < computed_variance px k"
      unfolding otsu_best_def by auto
    have "\<forall>i<Suc n. otsu_candidate px i \<longrightarrow> computed_variance px i \<le> computed_variance px k"
      using k(5) assms(2) less_Suc_eq by auto
    with k True e show ?thesis unfolding otsu_best_def by (auto intro!: exI [of _ k])
  next
    case False
    with e have ne: "\<not> (\<exists>i<Suc n. otsu_candidate px i)" by simp
    from assms(1) False have "mv = - 1 \<and> th = 128" by (simp only: otsu_best_def if_False)
    with ne show ?thesis by (simp only: otsu_best_def if_False)
  qed
qed

lemma otsu_best_rest:
  assumes "otsu_best px n mv th" "\<And>i. n \<le> i \<Longrightarrow> \<not> otsu_candidate px i" "n \<le> m"
  shows "otsu_best px m mv th"
  using assms(3)
proof (induction m)
  case 0
  with assms(1) show ?case by simp
next
  case (Suc m)
  show ?case
  proof (cases "n = Suc m")
    case True
    with assms(1) show ?thesis by simp
  next
    case False
    with Suc.prems have le: "n \<le> m" by simp
    from otsu_best_skip [OF Suc.IH [OF le] assms(2) [OF le]] show ?thesis .
  qed
qed

lemma otsu_best_new:
  assumes "otsu_best px n mv th" "otsu_candidate px n" "computed_variance px n > mv"
  shows "otsu_best px (Suc n) (computed_variance px n) (int n)"
proof -
  have le: "computed_variance px i < computed_variance px n" if "i < n" "otsu_candidate px i" for i
  proof -
    from that have "\<exists>i<n. otsu_candidate px i" by auto
    with assms(1) obtain k where k: "mv = computed_variance px k"
      "\<forall>i<n. otsu_candidate px i \<longrightarrow> computed_variance px i \<le> computed_variance px k"
      unfolding otsu_best_def by auto
    with that assms(3) show ?thesis by force
  qed
  have "\<exists>i<Suc n. otsu_candidate px i" using assms(2) by auto
  moreover have "\<forall>i<Suc n. otsu_candidate px i \<longrightarrow> computed_variance px i \<le> computed_variance px n"
    using le less_Suc_eq by force
  moreover have "\<forall>i<n. otsu_candidate px i \<longrightarrow> computed_variance px i < computed_variance px n"
    using le by simp
  ultimately show ?thesis
    unfolding otsu_best_def using assms(2) by (auto intro!: exI [of _ n])
qed

lemma otsu_best_keep:
  assumes "otsu_best px n mv th" "otsu_candidate px n" "\<not> computed_variance px n > mv"
  shows "otsu_best px (Suc n) mv th"
proof -
  have ex: "\<exists>i<n. otsu_candidate px i"
  proof (rule ccontr)
    assume "\<not> (\<exists>i<n. otsu_candidate px i)"
    with assms(1) have "mv = - 1" unfolding otsu_best_def by simp
    with assms(3) computed_variance_nonneg [of px n] show False by simp
  qed
  with assms(1) obtain k where k: "k < n" "th = int k" "otsu_candidate px k"
      "mv = computed_variance px k"
      "\<forall>i<n. otsu_candidate px i \<longrightarrow> computed_variance px i \<le> computed_variance px k"
      "\<forall>i<k. otsu_candidate px i \<longrightarrow> computed_variance px i < computed_variance px k"
    unfolding otsu_best_def by auto
  have "\<forall>i<Suc n. otsu_candidate px i \<longrightarrow> computed_variance px i \<le> computed_variance px k"
    using k(4,5) assms(3) less_Suc_eq by force
  moreover have "\<exists>i<Suc n. otsu_candidate px i" using assms(2) by auto
  ultimately show ?thesis
    unfolding otsu_best_def using k by (auto intro!: exI [of _ k])
qed

lemma otsu_from_best:
  "t \<le> 256 \<Longrightarrow> otsu_best px t mv th \<Longrightarrow> \<exists>mv'. otsu_best px 256 mv' (otsu_from px t mv th)"
proof (induction "256 - t" arbitrary: t mv th)
  case 0
  then have "t = 256" by simp
  with 0 show ?case by (subst otsu_from_step) auto
next
  case (Suc d)
  then have t: "t < 256" and d: "d = 256 - Suc t" and le: "Suc t \<le> 256" by simp_all
  show ?case
  proof (cases "class_lo px t = []")
    case True
    then have "\<not> otsu_candidate px t" by (simp add: otsu_candidate_def)
    from Suc.hyps(1) [OF d le otsu_best_skip [OF Suc.prems(2) this]] True t
    show ?thesis by (subst otsu_from_step) simp
  next
    case lo: False
    show ?thesis
    proof (cases "class_hi px t = []")
      case True
      then have "\<And>i. t \<le> i \<Longrightarrow> \<not> otsu_candidate px i"
        using class_hi_empty_mono by (auto simp: otsu_candidate_def)
      from otsu_best_rest [OF Suc.prems(2) this, of 256] t
      have "otsu_best px 256 mv th" by simp
      with lo True t show ?thesis by (subst otsu_from_step) auto
    next
      case hi: False
      with lo t have c: "otsu_candidate px t" by (simp add: otsu_candidate_def)
      show ?thesis
      proof (cases "computed_variance px t > mv")
        case True
        from Suc.hyps(1) [OF d le otsu_best_new [OF Suc.prems(2) c True]] lo hi t True
        show ?thesis by (subst otsu_from_step) simp
      next
        case False
        from Suc.hyps(1) [OF d le otsu_best_keep [OF Suc.prems(2) c False]] lo hi t False
        show ?thesis by (subst otsu_from_step) simp
      qed
    qed
  qed
qed

lemma otsu_threshold_from:
  assumes "\<forall>v \<in> set (concat gray). v < 256"
  shows "otsu_threshold gray = otsu_from (concat gray) 0 (- 1) 128"
  by (simp add: otsu_threshold_def otsu_from_def Let_def sum_total_eq [OF assms])

lemma otsu_best_start: "otsu_best px 0 (- 1) 128"
  by (simp add: otsu_best_def)

section \<open>The rectangle of one iteration\<close>

lemma clamp_span:
  "1 \<le> L \<Longrightarrow> 1 \<le> side \<Longrightarrow>
   \<not> clamp (clamp a 0 (L - 1) + side - 1) 0 (L - 1) < clamp a 0 (L - 1)"
  by (simp add: clamp_def)

lemma module_rect_mini_square:
  assumes "\<not> in_finder n row col" "1 \<le> Lw" "1 \<le> Lh"
    and "module_rect Lw Lh n total_modules qz sf row col = Inr rect"
  shows "check_rectangle rect = Inr rect"
proof -
  define side where "side = max 1 (py_round (min (of_int Lw / of_int total_modules)
                                        (of_int Lh / of_int total_modules) * sf))"
  define cx where "cx = py_round ((of_int (col + qz) + 1 / 2) * (1 / of_int total_modules) * of_int Lw)"
  define cy where "cy = py_round ((of_int (row + qz) + 1 / 2) * (1 / of_int total_modules) * of_int Lh)"
  define x0 where "x0 = clamp (cx - side div 2) 0 (Lw - 1)"
  define y0 where "y0 = clamp (cy - side div 2) 0 (Lh - 1)"
  have s: "1 \<le> side" by (simp add: side_def)
  have r: "rect = (x0, y0, clamp (x0 + side - 1) 0 (Lw - 1), clamp (y0 + side - 1) 0 (Lh - 1))"
    using assms(1,4)
    unfolding module_rect_def Let_def side_def [symmetric] cx_def [symmetric] cy_def [symmetric]
      x0_def [symmetric] y0_def [symmetric]
    by (simp split: if_splits)
  have "\<not> clamp (x0 + side - 1) 0 (Lw - 1) < x0" "\<not> clamp (y0 + side - 1) 0 (Lh - 1) < y0"
    unfolding x0_def y0_def using assms(2,3) s by (simp_all only: clamp_span not_False_eq_True)
  then show ?thesis by (simp add: r check_rectangle_def)
qed

lemma paint_module_outcome:
  assumes q: "1 \<le> width qr_img" "1 \<le> height qr_img"
    and l: "1 \<le> width logo" "1 \<le> height logo"
    and t: "grid_total geo \<noteq> 0"
    and n: "n_modules geo \<noteq> 0"
  shows "\<exists>rect r g b.
           module_rect (width logo) (height logo) (n_modules geo) (grid_total geo)
             (qz_modules geo) sf row col = Inr rect \<and>
           paint_module qr_img logo geo sf radius thr_logo thr_qr alpha (row, col) =
             (if check_rectangle rect = Inr rect then Inr (rect, (r, g, b, alpha))
              else Inl InvalidRectangle)"
proof -
  let ?T = "n_modules geo + 2 * qz_modules geo"
  have T: "grid_total geo = ?T" by (simp add: grid_total_def)
  have rdy: "logo_ready logo (width logo) (height logo) ?T"
    using l t by (simp add: logo_ready_def grid_total_def)
  obtain wd where wd: "sample_qr_module_dark qr_img geo thr_qr row col = Inr wd"
    using sample_qr_module_dark_ok [OF n q] by blast
  obtain pk where pk: "pick_logo_color logo (width logo) (height logo) ?T (qz_modules geo)
                         row col wd thr_logo radius = Inr pk"
    by (simp add: pick_logo_color_eq [OF rdy])
  obtain rect where rect: "module_rect (width logo) (height logo) (n_modules geo) ?T
                             (qz_modules geo) sf row col = Inr rect"
    using module_rect_ok [OF t [unfolded grid_total_def]] by blast
  have ck: "check_rectangle rect = Inr rect \<or> check_rectangle rect = Inl InvalidRectangle"
    by (cases rect) (auto simp: check_rectangle_def)
  obtain r g b where col: "(case pk of
             None \<Rightarrow> synthesize_color logo (width logo) (height logo) ?T (qz_modules geo)
                       row col wd alpha
           | Some (r, g, b, a) \<Rightarrow> Inr (r, g, b, alpha)) = Inr (r, g, b, alpha)"
  proof (cases pk)
    case None
    with synthesize_color_ok [OF rdy] that show ?thesis by fastforce
  next
    case (Some p)
    with that show ?thesis by (cases p) auto
  qed
  have "paint_module qr_img logo geo sf radius thr_logo thr_qr alpha (row, col) =
             (if check_rectangle rect = Inr rect then Inr (rect, (r, g, b, alpha))
              else Inl InvalidRectangle)"
    using ck by (auto simp: paint_module_def Let_def wd pk col rect)
  with rect show ?thesis unfolding T by blast
qed

section \<open>Colour synthesis at strength 0.40\<close>

text \<open>
  C2 (as stated): at strength 0.40 mid-gray becomes (77,77,77) toward dark and
  (204,204,204) toward light. The second value is not what the function returns.
\<close>

theorem adjust_color_toward_light_counterexample:
  "adjust_color_toward (128, 128, 128) False (40 / 100) \<noteq> (204, 204, 204)"
  by (simp add: adjust_color_toward_def py_round_def clamp_def Let_def)

text \<open>
  C2 (amended): at strength 0.40 mid-gray (128,128,128) becomes (77,77,77) toward dark
  and (179,179,179) toward light; for byte channels, each result channel is a byte within
  one half (the rounding) of the point 40 percent of the way from the channel to 0 (dark)
  or to 255 (light).
\<close>

theorem adjust_color_toward_blend:
  "adjust_color_toward (128, 128, 128) True (40 / 100) = (77, 77, 77) \<and>
   adjust_color_toward (128, 128, 128) False (40 / 100) = (179, 179, 179) \<and>
   (0 \<le> r \<and> r \<le> 255 \<and> 0 \<le> g \<and> g \<le> 255 \<and> 0 \<le> b \<and> b \<le> 255 \<longrightarrow>
      (case adjust_color_toward (r, g, b) toward_dark (40 / 100) of
         (r', g', b') \<Rightarrow>
           channel_ok toward_dark r r' \<and> channel_ok toward_dark g g' \<and>
           channel_ok toward_dark b b'))"
proof (intro conjI impI)
  show "adjust_color_toward (128, 128, 128) True (40 / 100) = (77, 77, 77)"
    by (simp add: adjust_color_toward_def py_round_def clamp_def Let_def)
  show "adjust_color_toward (128, 128, 128) False (40 / 100) = (179, 179, 179)"
    by (simp add: adjust_color_toward_def py_round_def clamp_def Let_def)
next
  assume "0 \<le> r \<and> r \<le> 255 \<and> 0 \<le> g \<and> g \<le> 255 \<and> 0 \<le> b \<and> b \<le> 255"
  then have r: "0 \<le> r" "r \<le> 255" and g: "0 \<le> g" "g \<le> 255" and b: "0 \<le> b" "b \<le> 255"
    by simp_all
  show "case adjust_color_toward (r, g, b) toward_dark (40 / 100) of
         (r', g', b') \<Rightarrow>
           channel_ok toward_dark r r' \<and> channel_ok toward_dark g g' \<and>
           channel_ok toward_dark b b'"
  proof (cases toward_dark)
    case True
    then show ?thesis
      using channel_step_dark[OF r] channel_step_dark[OF g] channel_step_dark[OF b]
      by (simp only: adjust_color_toward_def channel_ok_def prod.case Let_def if_True)
  next
    case False
    then show ?thesis
      using channel_step_light[OF r] channel_step_light[OF g] channel_step_light[OF b]
      by (simp only: adjust_color_toward_def channel_ok_def prod.case Let_def if_False)
  qed
qed

theorem adjust_color_toward_blend_witness:
  "adjust_color_toward (128, 128, 128) True (40 / 100) = (77, 77, 77) \<and>
   adjust_color_toward (128, 128, 128) False (40 / 100) = (179, 179, 179) \<and>
   channel_ok False 10 108 \<and> channel_ok True 200 120 \<and> channel_ok False 255 255"
  using adjust_color_toward_blend [of 10 10 255 False] adjust_color_toward_blend [of 200 200 200 True]
  by (simp add: adjust_color_toward_def py_round_def clamp_def Let_def)

section \<open>The module count of the inference\<close>

text \<open>
  C1 (as stated): when the width-derived and the height-derived module counts differ,
  \<open>n_modules\<close> is the width-derived count. On a black column of 1 by 3 pixels the
  counts are 1 and 3 and the result is 2.
\<close>

theorem detect_qr_geometry_mismatch_counterexample:
  "detect_qr_geometry (uniform_image 1 3 (0, 0, 0, 255)) [[0], [0], [0]] (Some 128) =
     Inr \<lparr> n_modules = 2, qz_modules = 0, content_box = (0, 0, 0, 2),
           module_px = 1, thresh = 128, dark_is_lt = True \<rparr> \<and>
   width_count \<lparr> n_modules = 2, qz_modules = 0, content_box = (0, 0, 0, 2),
           module_px = 1, thresh = 128, dark_is_lt = True \<rparr> = 1 \<and>
   height_count \<lparr> n_modules = 2, qz_modules = 0, content_box = (0, 0, 0, 2),
           module_px = 1, thresh = 128, dark_is_lt = True \<rparr> = 3"
  by code_simp

text \<open>
  C1 (amended): when the two counts differ, \<open>n_modules\<close> is their mean, rounded (a tie
  to the even neighbour); when they are equal, it is that count.
\<close>

theorem detect_qr_geometry_module_count:
  "detect_qr_geometry qr_img gray thr = Inr geo \<Longrightarrow>
   n_modules geo =
     (if width_count geo \<noteq> height_count geo
      then py_round (of_int (width_count geo + height_count geo) / 2)
      else width_count geo)"
  using detect_qr_geometry_Inr_mask detect_qr_geometry_Inr_fields by blast

theorem detect_qr_geometry_module_count_witness:
  "detect_qr_geometry (uniform_image 1 3 (0, 0, 0, 255)) [[0], [0], [0]] (Some 128) =
     Inr \<lparr> n_modules = 2, qz_modules = 0, content_box = (0, 0, 0, 2),
           module_px = 1, thresh = 128, dark_is_lt = True \<rparr> \<and>
   (2 :: int) = py_round (of_int (1 + 3) / 2)"
proof -
  have h: "detect_qr_geometry (uniform_image 1 3 (0, 0, 0, 255)) [[0], [0], [0]] (Some 128) =
     Inr \<lparr> n_modules = 2, qz_modules = 0, content_box = (0, 0, 0, 2),
           module_px = 1, thresh = 128, dark_is_lt = True \<rparr>"
    by code_simp
  have w: "width_count \<lparr> n_modules = 2, qz_modules = 0, content_box = (0, 0, 0, 2),
           module_px = 1, thresh = 128, dark_is_lt = True \<rparr> = 1"
    "height_count \<lparr> n_modules = 2, qz_modules = 0, content_box = (0, 0, 0, 2),
           module_px = 1, thresh = 128, dark_is_lt = True \<rparr> = 3"
    by code_simp+
  show ?thesis using h detect_qr_geometry_module_count [OF h] by (simp add: w)
qed

section \<open>The threshold of greatest variance\<close>

text \<open>
  C3 (as stated): the result maximizes the between-class variance of the partition
  into the values below \<open>t\<close> and the values from \<open>t\<close> on. For the pixels 0 and 2 the
  result is 0, where that variance is 0, while it is 4 at \<open>t = 1\<close>.
\<close>

theorem otsu_threshold_partition_counterexample:
  "otsu_threshold [[0, 2]] = 0 \<and>
   stated_variance [0, 2] 0 = 0 \<and>
   stated_variance [0, 2] 1 = 4 \<and>
   stated_variance [0, 2] (nat (otsu_threshold [[0, 2]])) < stated_variance [0, 2] 1"
proof -
  have r: "otsu_threshold [[0, 2]] = 0" by code_simp
  have s: "stated_variance [0, 2] 0 = 0" "stated_variance [0, 2] 1 = 4"
    by (simp_all add: stated_variance_def var_between_def py_truediv_def float64_def
        float_exponent_def compute_bitlen pow2_def py_round_def Let_def)
  have z: "stated_variance [0, 2] (nat (otsu_threshold [[0, 2]])) = 0"
    by (simp only: r nat_0 s)
  have l: "stated_variance [0, 2] (nat (otsu_threshold [[0, 2]])) < stated_variance [0, 2] 1"
    unfolding z s by simp
  from r s l show ?thesis by blast
qed

text \<open>
  C3 (amended): for byte pixels the result is an integer in [0,255]. When some
  threshold below 256 splits the pixels into two inhabited classes, values up to \<open>t\<close>
  and values above \<open>t\<close>, the result is such a threshold; among these thresholds it
  maximizes the between-class variance of the two classes as computed in binary64,
  and every smaller one has a strictly smaller computed variance (the earliest maximum
  of the computed values is kept). When there is no such threshold the result is 128.
\<close>

theorem otsu_threshold_first_maximum:
  assumes "\<forall>v \<in> set (concat gray). v < 256"
  shows "0 \<le> otsu_threshold gray \<and> otsu_threshold gray \<le> 255 \<and>
         ((\<exists>t. otsu_candidate (concat gray) t) \<longrightarrow>
            otsu_candidate (concat gray) (nat (otsu_threshold gray)) \<and>
            (\<forall>t. otsu_candidate (concat gray) t \<longrightarrow>
                 computed_variance (concat gray) t
                   \<le> computed_variance (concat gray) (nat (otsu_threshold gray))) \<and>
            (\<forall>t<nat (otsu_threshold gray).
                otsu_candidate (concat gray) t \<longrightarrow>
                 computed_variance (concat gray) t
                   < computed_variance (concat gray) (nat (otsu_threshold gray)))) \<and>
         (\<not> (\<exists>t. otsu_candidate (concat gray) t) \<longrightarrow> otsu_threshold gray = 128)"
proof -
  let ?px = "concat gray"
  let ?r = "otsu_threshold gray"
  obtain mv where best: "otsu_best ?px 256 mv ?r"
    using otsu_from_best [of 0 ?px "- 1" 128] otsu_best_start
    by (auto simp: otsu_threshold_from [OF assms])
  have c256: "(\<exists>i<256. otsu_candidate ?px i) = (\<exists>t. otsu_candidate ?px t)"
    by (auto simp: otsu_candidate_def)
  show ?thesis
  proof (cases "\<exists>t. otsu_candidate ?px t")
    case True
    with best c256 obtain k where k: "k < 256" "?r = int k" "otsu_candidate ?px k"
      "\<forall>i<256. otsu_candidate ?px i \<longrightarrow> computed_variance ?px i \<le> computed_variance ?px k"
      "\<forall>i<k. otsu_candidate ?px i \<longrightarrow> computed_variance ?px i < computed_variance ?px k"
      unfolding otsu_best_def by auto
    have nk: "nat ?r = k" using k(2) by simp
    have m: "\<forall>t. otsu_candidate ?px t \<longrightarrow> computed_variance ?px t \<le> computed_variance ?px k"
      using k(4) by (auto simp: otsu_candidate_def)
    from k(1,2) have "0 \<le> ?r" "?r \<le> 255" by simp_all
    with True k(3) m k(5) show ?thesis unfolding nk by simp
  next
    case False
    with best c256 have "?r = 128" unfolding otsu_best_def by simp
    with False show ?thesis by simp
  qed
qed

theorem otsu_threshold_first_maximum_witness:
  "otsu_threshold [[0, 1, 1, 2]] = 1 \<and>
   otsu_candidate [0, 1, 1, 2] 0 \<and>
   otsu_candidate [0, 1, 1, 2] 1 \<and>
   computed_variance [0, 1, 1, 2] 0 < computed_variance [0, 1, 1, 2] 1 \<and>
   otsu_threshold [[7, 7]] = 128"
proof -
  have a: "\<forall>v \<in> set (concat [[0, 1, 1, 2 :: nat]]). v < 256" by simp
  have b: "\<forall>v \<in> set (concat [[7, 7 :: nat]]). v < 256" by simp
  have c: "otsu_candidate [0, 1, 1, 2] 0" "otsu_candidate [0, 1, 1, 2] 1"
    by (simp_all add: otsu_candidate_def class_lo_def class_hi_def)
  then have e: "\<exists>t. otsu_candidate (concat [[0, 1, 1, 2]]) t" by auto
  have n: "\<not> (\<exists>t. otsu_candidate (concat [[7, 7]]) t)"
    by (auto simp: otsu_candidate_def class_lo_def class_hi_def)
  have r: "otsu_threshold [[0, 1, 1, 2]] = 1" by code_simp
  from otsu_threshold_first_maximum [OF a] e
  have "\<forall>t<nat (otsu_threshold [[0, 1, 1, 2]]). otsu_candidate [0, 1, 1, 2] t \<longrightarrow>
          computed_variance [0, 1, 1, 2] t
            < computed_variance [0, 1, 1, 2] (nat (otsu_threshold [[0, 1, 1, 2]]))"
    by simp
  then have m: "computed_variance [0, 1, 1, 2] 0 < computed_variance [0, 1, 1, 2] 1"
    using c(1) unfolding r by simp
  from otsu_threshold_first_maximum [OF b] n have "otsu_threshold [[7, 7]] = 128" by simp
  with r c m show ?thesis by blast
qed

section \<open>The invariant of the content box\<close>

text \<open>
  C4 (as stated): every constructed geometry, from the override path and from the
  inference path, has a content box within one pixel of \<open>module_px \<times> n_modules\<close>.
  The inference on a black column of 1 by 5 pixels returns 3 modules of size 1 for a
  box 1 pixel wide; the override path on 200 by 200 pixels with 30 modules and a quiet
  zone of 9 returns a box of 124 pixels for \<open>30 \<times> module_px\<close> just above 125.
\<close>

theorem box_consistent_counterexample:
  "detect_qr_geometry (uniform_image 1 5 (0, 0, 0, 255)) [[0], [0], [0], [0], [0]] (Some 128) =
     Inr \<lparr> n_modules = 3, qz_modules = 0, content_box = (0, 0, 0, 4),
           module_px = 1, thresh = 128, dark_is_lt = True \<rparr> \<and>
   \<not> box_consistent \<lparr> n_modules = 3, qz_modules = 0, content_box = (0, 0, 0, 4),
           module_px = 1, thresh = 128, dark_is_lt = True \<rparr> \<and>
   geo_from_exact_dims (uniform_image 200 200 (0, 0, 0, 255)) 30 9 =
     Inr \<lparr> n_modules = 30, qz_modules = 9, content_box = (38, 38, 161, 161),
           module_px = 4691249611844267 / 1125899906842624, thresh = 128, dark_is_lt = True \<rparr> \<and>
   \<not> box_consistent \<lparr> n_modules = 30, qz_modules = 9, content_box = (38, 38, 161, 161),
           module_px = 4691249611844267 / 1125899906842624, thresh = 128, dark_is_lt = True \<rparr>"
proof -
  have a: "detect_qr_geometry (uniform_image 1 5 (0, 0, 0, 255)) [[0], [0], [0], [0], [0]] (Some 128) =
     Inr \<lparr> n_modules = 3, qz_modules = 0, content_box = (0, 0, 0, 4),
           module_px = 1, thresh = 128, dark_is_lt = True \<rparr>"
    by code_simp
  have m: "py_truediv 200 48 = 4691249611844267 / 1125899906842624"
    by (simp add: py_truediv_def float64_def float_exponent_def compute_bitlen pow2_def
        py_round_def Let_def)
  have p1: "py_round (float64 (42221246506598403 / 1125899906842624)) = 38"
    by (simp add: float64_def float_exponent_def compute_bitlen pow2_def py_round_def Let_def)
  have p2: "py_round (float64 (182958734861926413 / 1125899906842624)) = 162"
    by (simp add: float64_def float_exponent_def compute_bitlen pow2_def py_round_def Let_def)
  note p = p1 p2
  have b: "geo_from_exact_dims (uniform_image 200 200 (0, 0, 0, 255)) 30 9 =
     Inr \<lparr> n_modules = 30, qz_modules = 9, content_box = (38, 38, 161, 161),
           module_px = 4691249611844267 / 1125899906842624, thresh = 128, dark_is_lt = True \<rparr>"
    by (simp add: geo_from_exact_dims_def m p Let_def)
  show ?thesis using a b by (simp add: box_consistent_def)
qed

text \<open>
  C4 (amended): every geometry constructed by the override path has a content box
  whose extents are within one pixel, plus the binary64 rounding error of the two
  products \<^verbatim>\<open>qz * module_px\<close> and \<^verbatim>\<open>(qz + n) * module_px\<close>, of \<open>module_px \<times> n_modules\<close>.
\<close>

theorem geo_from_exact_dims_box_slack:
  "geo_from_exact_dims qr_img n qz = Inr geo \<Longrightarrow> box_within geo (1 + float_slack geo)"
proof -
  assume a: "geo_from_exact_dims qr_img n qz = Inr geo"
  define mpx :: real where "mpx = py_truediv (width qr_img) (n + 2 * qz)"
  define x1 where "x1 = float64 (of_int qz * mpx)"
  define x2 where "x2 = float64 (of_int (qz + n) * mpx)"
  from a have g: "geo = \<lparr> n_modules = n, qz_modules = qz,
      content_box = (py_round x1, py_round x1, py_round x2 - 1, py_round x2 - 1),
      module_px = mpx, thresh = 128, dark_is_lt = True \<rparr>"
    by (auto simp: geo_from_exact_dims_def Let_def mpx_def x1_def x2_def split: if_splits)
  have r: "\<bar>of_int (py_round x2 - py_round x1) - (x2 - x1)\<bar> \<le> 1"
    by (rule py_round_diff)
  have e1: "\<bar>x1 - of_int qz * mpx\<bar> \<le> \<bar>of_int qz * mpx\<bar> / 2 ^ 53"
    unfolding x1_def by (rule float64_error)
  have e2: "\<bar>x2 - of_int (qz + n) * mpx\<bar> \<le> \<bar>of_int (qz + n) * mpx\<bar> / 2 ^ 53"
    unfolding x2_def by (rule float64_error)
  have s: "float_slack geo = \<bar>of_int qz * mpx\<bar> / 2 ^ 53 + \<bar>of_int (qz + n) * mpx\<bar> / 2 ^ 53"
    by (simp add: float_slack_def g add_divide_distrib)
  have d: "of_int (qz + n) * mpx - of_int qz * mpx = mpx * of_int n"
    by (simp add: algebra_simps)
  have "\<bar>of_int (py_round x2 - py_round x1) - mpx * of_int n\<bar> \<le> 1 + float_slack geo"
    using r e1 e2 d unfolding s by linarith
  then show ?thesis by (simp add: g box_within_def)
qed

theorem geo_from_exact_dims_box_slack_witness:
  "geo_from_exact_dims (uniform_image 290 290 (0, 0, 0, 255)) 21 4 =
     Inr \<lparr> n_modules = 21, qz_modules = 4, content_box = (40, 40, 249, 249),
           module_px = 10, thresh = 128, dark_is_lt = True \<rparr> \<and>
   box_within \<lparr> n_modules = 21, qz_modules = 4, content_box = (40, 40, 249, 249),
           module_px = 10, thresh = 128, dark_is_lt = True \<rparr>
     (1 + float_slack \<lparr> n_modules = 21, qz_modules = 4, content_box = (40, 40, 249, 249),
           module_px = 10, thresh = 128, dark_is_lt = True \<rparr>)"
proof -
  have d: "py_truediv 290 29 = 10"
    by (simp add: py_truediv_def float64_def float_exponent_def compute_bitlen pow2_def
        py_round_def Let_def)
  have p1: "py_round (float64 40) = 40"
    by (simp add: float64_def float_exponent_def compute_bitlen pow2_def py_round_def Let_def)
  have p2: "py_round (float64 250) = 250"
    by (simp add: float64_def float_exponent_def compute_bitlen pow2_def py_round_def Let_def)
  note p = p1 p2
  have h: "geo_from_exact_dims (uniform_image 290 290 (0, 0, 0, 255)) 21 4 =
     Inr \<lparr> n_modules = 21, qz_modules = 4, content_box = (40, 40, 249, 249),
           module_px = 10, thresh = 128, dark_is_lt = True \<rparr>"
    by (simp add: geo_from_exact_dims_def d p Let_def)
  show ?thesis using h geo_from_exact_dims_box_slack [OF h] by simp
qed

section \<open>Override mode\<close>

text \<open>
  C5: override mode fails with \<open>InvalidInput\<close> exactly when the bitmap is not square;
  on a square bitmap of side \<open>W\<close>, with a module count and a quiet zone in the ranges
  of the data model (\<open>n > 0\<close>, \<open>qz \<ge> 0\<close>), it succeeds with \<open>module_px\<close> the value of
  \<^verbatim>\<open>W / (n + 2 * qz)\<close>, the given \<open>n\<close> and \<open>qz\<close>, \<open>thresh = 128\<close> and \<open>dark_is_lt\<close> true.
\<close>

theorem geo_from_exact_dims_result:
  "(geo_from_exact_dims qr_img n qz = Inl InvalidInput \<longleftrightarrow> width qr_img \<noteq> height qr_img) \<and>
   (width qr_img = height qr_img \<and> 0 < n \<and> 0 \<le> qz \<longrightarrow>
      (\<exists>geo. geo_from_exact_dims qr_img n qz = Inr geo \<and>
             module_px geo = py_truediv (width qr_img) (n + 2 * qz) \<and>
             n_modules geo = n \<and> qz_modules geo = qz \<and>
             thresh geo = 128 \<and> dark_is_lt geo))"
  by (simp add: geo_from_exact_dims_def Let_def)

theorem geo_from_exact_dims_result_witness:
  "geo_from_exact_dims (uniform_image 290 290 (0, 0, 0, 255)) 21 4 \<noteq> Inl InvalidInput \<and>
   (\<exists>geo. geo_from_exact_dims (uniform_image 290 290 (0, 0, 0, 255)) 21 4 = Inr geo \<and>
          module_px geo = 10 \<and> n_modules geo = 21 \<and> qz_modules geo = 4 \<and>
          thresh geo = 128 \<and> dark_is_lt geo) \<and>
   geo_from_exact_dims (uniform_image 290 200 (0, 0, 0, 255)) 21 4 = Inl InvalidInput"
proof -
  have d: "py_truediv 290 29 = 10"
    by (simp add: py_truediv_def float64_def float_exponent_def compute_bitlen pow2_def
        py_round_def Let_def)
  show ?thesis
    using geo_from_exact_dims_result [of "uniform_image 290 290 (0, 0, 0, 255)" 21 4]
      geo_from_exact_dims_result [of "uniform_image 290 200 (0, 0, 0, 255)" 21 4]
    by (simp add: d)
qed

section \<open>The choice of the polarity\<close>

text \<open>
  C6: the inference fails with \<open>NoModulesDetected\<close> exactly when both masks
  (luminance below the threshold, luminance above it) are empty; otherwise it works
  with the mask that has more set pixels, the mask below the threshold on a tie, that
  mask is not empty, and \<open>dark_is_lt\<close> of the result records the choice.
\<close>

theorem detect_qr_geometry_polarity:
  "(detect_qr_geometry qr_img gray thr = Inl NoModulesDetected \<longleftrightarrow>
      mask_sum (mask_lt gray (threshold_used gray thr)) = 0 \<and>
      mask_sum (mask_gt gray (threshold_used gray thr)) = 0) \<and>
   (\<not> (mask_sum (mask_lt gray (threshold_used gray thr)) = 0 \<and>
        mask_sum (mask_gt gray (threshold_used gray thr)) = 0) \<longrightarrow>
      choose_mask gray (threshold_used gray thr) =
        Inr (mask_sum (mask_gt gray (threshold_used gray thr))
               \<le> mask_sum (mask_lt gray (threshold_used gray thr)),
             if mask_sum (mask_gt gray (threshold_used gray thr))
                  \<le> mask_sum (mask_lt gray (threshold_used gray thr))
             then mask_lt gray (threshold_used gray thr)
             else mask_gt gray (threshold_used gray thr)) \<and>
      0 < (if mask_sum (mask_gt gray (threshold_used gray thr))
                  \<le> mask_sum (mask_lt gray (threshold_used gray thr))
           then mask_sum (mask_lt gray (threshold_used gray thr))
           else mask_sum (mask_gt gray (threshold_used gray thr)))) \<and>
   (detect_qr_geometry qr_img gray thr = Inr geo \<longrightarrow>
      dark_is_lt geo = (mask_sum (mask_gt gray (threshold_used gray thr))
                          \<le> mask_sum (mask_lt gray (threshold_used gray thr))))"
proof -
  let ?t = "threshold_used gray thr"
  let ?l = "mask_sum (mask_lt gray ?t)" and ?g = "mask_sum (mask_gt gray ?t)"
  have t: "(case thr of None \<Rightarrow> otsu_threshold gray | Some q \<Rightarrow> q) = ?t"
    by (simp add: threshold_used_def)
  have nn: "0 \<le> ?l" "0 \<le> ?g" by (rule mask_sum_nonneg)+
  show ?thesis
  proof (cases "?l = 0 \<and> ?g = 0")
    case True
    then have "choose_mask gray ?t = Inl NoModulesDetected" by (simp add: choose_mask_eq)
    then have "detect_qr_geometry qr_img gray thr = Inl NoModulesDetected"
      by (simp add: detect_qr_geometry_def t)
    with True show ?thesis by simp
  next
    case False
    then have cm: "choose_mask gray ?t = Inr (?g \<le> ?l, if ?g \<le> ?l then mask_lt gray ?t else mask_gt gray ?t)"
      by (simp add: choose_mask_eq)
    have pos: "0 < (if ?g \<le> ?l then ?l else ?g)" using False nn by auto
    have "detect_qr_geometry qr_img gray thr \<noteq> Inl NoModulesDetected" by (rule detect_qr_geometry_not_NoModules [OF cm])
    moreover have "detect_qr_geometry qr_img gray thr = Inr geo \<longrightarrow> dark_is_lt geo = (?g \<le> ?l)"
      using detect_qr_geometry_Inr_fields [OF cm] by simp
    ultimately show ?thesis using False cm pos by simp
  qed
qed

theorem detect_qr_geometry_polarity_witness:
  "detect_qr_geometry (uniform_image 1 1 (128, 128, 128, 255)) [[128]] (Some 128)
     = Inl NoModulesDetected \<and>
   choose_mask [[255, 255, 255, 255], [255, 0, 255, 255], [255, 255, 0, 255], [255, 255, 255, 255]] 128
     = Inr (False, [[True, True, True, True], [True, False, True, True],
                    [True, True, False, True], [True, True, True, True]]) \<and>
   detect_qr_geometry (uniform_image 1 3 (0, 0, 0, 255)) [[0], [0], [0]] (Some 128) =
     Inr \<lparr> n_modules = 2, qz_modules = 0, content_box = (0, 0, 0, 2),
           module_px = 1, thresh = 128, dark_is_lt = True \<rparr>"
proof -
  let ?g4 = "[[255, 255, 255, 255], [255, 0, 255, 255], [255, 255, 0, 255], [255, 255, 255, 255]] :: nat list list"
  have h: "detect_qr_geometry (uniform_image 1 3 (0, 0, 0, 255)) [[0], [0], [0]] (Some 128) =
     Inr \<lparr> n_modules = 2, qz_modules = 0, content_box = (0, 0, 0, 2),
           module_px = 1, thresh = 128, dark_is_lt = True \<rparr>"
    by code_simp
  show ?thesis
    using detect_qr_geometry_polarity [of "uniform_image 1 1 (128, 128, 128, 255)" "[[128]]" "Some 128"]
      detect_qr_geometry_polarity [of _ ?g4 "Some 128"]
      detect_qr_geometry_polarity [of "uniform_image 1 3 (0, 0, 0, 255)" "[[0], [0], [0]]" "Some 128"
         "\<lparr> n_modules = 2, qz_modules = 0, content_box = (0, 0, 0, 2),
           module_px = 1, thresh = 128, dark_is_lt = True \<rparr>"] h
    by (simp add: threshold_used_def mask_sum_def mask_lt_def mask_gt_def)
qed

section \<open>The flag for the finder patterns\<close>

text \<open>
  C7: two runs of \<^verbatim>\<open>build_overlay\<close> that differ only in \<open>skip_finders\<close> give the same
  result, the same overlay or the same error.
\<close>

theorem build_overlay_ignores_skip_finders:
  "build_overlay qr_img qr_gray logo modules_override quiet_override square_frac radius
     threshold_logo threshold_qr skip1 alpha =
   build_overlay qr_img qr_gray logo modules_override quiet_override square_frac radius
     threshold_logo threshold_qr skip2 alpha"
  by (simp add: build_overlay_def)

section \<open>The compositing loop\<close>

text \<open>
  C8: the loop is stated to have no failure path. On a logo of 1 by 1 pixel and a
  grid of 4 cells, the finder module (0, 0) has the cell bounds (0, 0, -1, -1), which
  \<^verbatim>\<open>ImageDraw.rectangle\<close> refuses: the iteration, and with it the loop, raises.
\<close>

theorem paint_module_empty_cell:
  "in_finder (n_modules small_geometry) 0 0 \<and>
   cell_bounds 1 1 (grid_total small_geometry) (qz_modules small_geometry) 0 0
     = Inr (0, 0, - 1, - 1) \<and>
   paint_module (uniform_image 4 4 (255, 255, 255, 255)) (uniform_image 1 1 (0, 0, 255, 255))
     small_geometry (1 / 4) 0 145 None 255 (0, 0) = Inl InvalidRectangle \<and>
   overlay_paints (uniform_image 4 4 (255, 255, 255, 255)) (uniform_image 1 1 (0, 0, 255, 255))
     small_geometry (1 / 4) 0 145 None 255 = Inl InvalidRectangle \<and>
   geo_from_exact_dims (uniform_image 4 4 (255, 255, 255, 255)) 2 1 = Inr small_geometry \<and>
   build_overlay (uniform_image 4 4 (255, 255, 255, 255)) [] (uniform_image 1 1 (0, 0, 255, 255))
     (Some 2) (Some 1) (1 / 4) 0 145 None True 255 = Inl InvalidRectangle"
proof -
  have mg: "module_grid 2 = [(0, 0), (0, 1), (1, 0), (1, 1)]"
    by code_simp
  have f: "in_finder (n_modules small_geometry) 0 0"
    by (simp add: in_finder_def small_geometry_def)
  have c: "cell_bounds 1 1 (grid_total small_geometry) (qz_modules small_geometry) 0 0
     = Inr (0, 0, - 1, - 1)"
    by (simp add: cell_bounds_def grid_total_def small_geometry_def py_round_def Let_def)
  have p: "paint_module (uniform_image 4 4 (255, 255, 255, 255)) (uniform_image 1 1 (0, 0, 255, 255))
     small_geometry (1 / 4) 0 145 None 255 (0, 0) = Inl InvalidRectangle"
    by (simp add: paint_module_def sample_qr_module_dark_def small_geometry_def
      getpixel_def clamp_def py_round_def pick_logo_color_def center_xy_def center_px_def
      is_dark_rgba_def luminance_rgb_def offsets_sorted_def offsets_unsorted_def neighbor_ok_def
      synthesize_color_def adjust_color_toward_def module_rect_def in_finder_def cell_bounds_def
      check_rectangle_def Let_def)
  have o: "overlay_paints (uniform_image 4 4 (255, 255, 255, 255)) (uniform_image 1 1 (0, 0, 255, 255))
     small_geometry (1 / 4) 0 145 None 255 = Inl InvalidRectangle"
    using p by (simp add: overlay_paints_def mg small_geometry_def)
  have d: "py_truediv 4 4 = 1"
    by (simp add: py_truediv_def float64_def float_exponent_def compute_bitlen pow2_def
        py_round_def Let_def)
  have r1: "py_round (float64 1) = 1"
    by (simp add: float64_def float_exponent_def compute_bitlen pow2_def py_round_def Let_def)
  have r3: "py_round (float64 3) = 3"
    by (simp add: float64_def float_exponent_def compute_bitlen pow2_def py_round_def Let_def)
  have g: "geo_from_exact_dims (uniform_image 4 4 (255, 255, 255, 255)) 2 1 = Inr small_geometry"
    by (simp add: geo_from_exact_dims_def d r1 r3 small_geometry_def Let_def)
  have b: "build_overlay (uniform_image 4 4 (255, 255, 255, 255)) [] (uniform_image 1 1 (0, 0, 255, 255))
     (Some 2) (Some 1) (1 / 4) 0 145 None True 255 = Inl InvalidRectangle"
    by (simp add: build_overlay_def g o Let_def) (simp add: small_geometry_def)
  from f c p o g b show ?thesis by blast
qed

section \<open>The order of the neighbour search\<close>



section \<open>Alpha of the picked pixel\<close>

text \<open>
  C10: when the centre pixel has alpha below 10 and a light module is wanted, the
  picker returns that pixel at once; a pixel that the picker returns is the centre
  pixel or has alpha at least 10.
\<close>

theorem pick_logo_color_alpha_rule:
  assumes "logo_ready logo_img logo_w logo_h total_modules"
  shows "(alpha_of (logo_sample logo_img logo_w logo_h total_modules (row + qz) (col + qz)) < 10 \<longrightarrow>
            pick_logo_color logo_img logo_w logo_h total_modules qz row col False thr radius =
              Inr (Some (logo_sample logo_img logo_w logo_h total_modules (row + qz) (col + qz)))) \<and>
         (pick_logo_color logo_img logo_w logo_h total_modules qz row col want_dark thr radius =
              Inr (Some p) \<longrightarrow>
            p = logo_sample logo_img logo_w logo_h total_modules (row + qz) (col + qz) \<or>
            10 \<le> alpha_of p)"
proof (intro conjI impI)
  let ?c = "logo_sample logo_img logo_w logo_h total_modules (row + qz) (col + qz)"
  assume "alpha_of ?c < 10"
  then have "is_dark_rgba thr ?c = False"
    by (cases ?c) (simp add: is_dark_rgba_def alpha_of_def)
  then show "pick_logo_color logo_img logo_w logo_h total_modules qz row col False thr radius =
              Inr (Some ?c)"
    by (simp add: pick_logo_color_eq [OF assms])
next
  let ?c = "logo_sample logo_img logo_w logo_h total_modules (row + qz) (col + qz)"
  let ?hit = "neighbor_hit logo_img logo_w logo_h total_modules (row + qz) (col + qz) want_dark thr"
  assume p: "pick_logo_color logo_img logo_w logo_h total_modules qz row col want_dark thr radius =
              Inr (Some p)"
  show "p = ?c \<or> 10 \<le> alpha_of p"
  proof (cases "is_dark_rgba thr ?c = want_dark")
    case True
    with p show ?thesis by (simp add: pick_logo_color_eq [OF assms])
  next
    case False
    with p obtain dr dc d2 where
      f: "List.find ?hit (offsets_sorted radius) = Some (dr, dc, d2)"
      and e: "p = logo_sample logo_img logo_w logo_h total_modules (row + qz + dr) (col + qz + dc)"
      by (auto simp: pick_logo_color_eq [OF assms] split: option.splits)
    from find_hit [OF f] have "?hit (dr, dc, d2)" by simp
    then have "neighbor_ok want_dark thr p" by (simp add: neighbor_hit_def e)
    then show ?thesis by (simp add: neighbor_ok_iff)
  qed
qed

theorem pick_logo_color_alpha_rule_witness:
  "logo_ready clear_logo 4 4 4 \<and>
   alpha_of (logo_sample clear_logo 4 4 4 (1 + 1) (1 + 1)) < 10 \<and>
   pick_logo_color clear_logo 4 4 4 1 1 1 False 145 2 = Inr (Some (0, 0, 0, 0)) \<and>
   logo_ready two_tone_logo 2 1 2 \<and>
   pick_logo_color two_tone_logo 2 1 2 0 0 0 False 145 1 = Inr (Some (255, 255, 255, 255)) \<and>
   (255, 255, 255, 255) \<noteq> logo_sample two_tone_logo 2 1 2 (0 + 0) (0 + 0) \<and>
   10 \<le> alpha_of (255, 255, 255, 255)"
proof -
  have r1: "logo_ready clear_logo 4 4 4" by (simp add: logo_ready_def clear_logo_def)
  have r2: "logo_ready two_tone_logo 2 1 2" by (simp add: logo_ready_def two_tone_logo_def)
  have s1: "logo_sample clear_logo 4 4 4 2 2 = (0, 0, 0, 0)"
    by (simp add: logo_sample_def clear_logo_def)
  have s2: "logo_sample two_tone_logo 2 1 2 0 0 = (0, 0, 0, 255)"
    by (simp add: logo_sample_def two_tone_logo_def center_px_def py_round_def clamp_def)
  have p2: "pick_logo_color two_tone_logo 2 1 2 0 0 0 False 145 1 = Inr (Some (255, 255, 255, 255))"
    by code_simp
  show ?thesis
    using pick_logo_color_alpha_rule [OF r1, of 1 1 1 145 2 False "(0, 0, 0, 0)"]
      pick_logo_color_alpha_rule [OF r2, of 0 0 0 145 1 False "(255, 255, 255, 255)"]
      r1 r2 p2
    by (simp add: s1 s2 alpha_of_def)
qed

end
